theory Spec2Isabelle
  imports Main "HOL-Library.Sublist"
begin

section \<open>The inventory examples of HOF.js\<close>

text \<open>
  The second half of \<^verbatim>\<open>HOF.js\<close> builds an array of item objects and derives new
  arrays and values from it with a \<^verbatim>\<open>for\<close> loop and with the array methods
  \<^verbatim>\<open>map\<close>, \<^verbatim>\<open>filter\<close>, \<^verbatim>\<open>find\<close>, \<^verbatim>\<open>findIndex\<close>, \<^verbatim>\<open>some\<close>,
  \<^verbatim>\<open>every\<close> and \<^verbatim>\<open>reduce\<close>. Objects and arrays are reference values in JavaScript:
  a callback receives a reference to the element, \<^verbatim>\<open>filter\<close> and \<^verbatim>\<open>find\<close> hand the
  same references on, an object literal and \<^verbatim>\<open>map\<close> allocate. The model therefore
  keeps an explicit store, so that "a new array", "the same element" and "the input is
  not changed" are statements about addresses and store contents.
\<close>

subsection \<open>Data model\<close>

text \<open>
  An item object \<^verbatim>\<open>{ name: "Sword", power: 10, broken: false }\<close>. The field
  \<^verbatim>\<open>power\<close> is called \<open>power_val\<close> here, since \<open>power\<close> is HOL's exponentiation.
  The data model types it as an integer.
\<close>

record item =
  name :: string
  power_val :: int
  broken :: bool

text \<open>
  A JavaScript number is a double: of the integers it holds those with at most 53
  significant bits, so every integer up to magnitude \<open>2^53\<close>, every second one up to
  \<open>2^54\<close>, every fourth one up to \<open>2^55\<close>, and so on. \<open>ulpOf m\<close> is the distance
  between neighbouring doubles at magnitude \<open>m\<close>.
\<close>

fun ulpOf :: "nat \<Rightarrow> nat" where
  "ulpOf m = (if m < 2 ^ 53 then 1 else 2 * ulpOf (m div 2))"

text \<open>
  The double nearest to an integer; of two equally near, the one whose significand is
  even (the rounding of every arithmetic operation on doubles).
\<close>

definition roundToDouble :: "int \<Rightarrow> int" where
  "roundToDouble x =
     (let m = nat \<bar>x\<bar>;
          u = ulpOf m;
          q = m div u;
          r = m mod u;
          q' = (if 2 * r < u then q
                else if u < 2 * r then q + 1
                else if even q then q else q + 1)
      in sgn x * int (q' * u))"

text \<open>
  \<^verbatim>\<open>a + b\<close> on two numbers holding integers: the exact sum, rounded. (The comparison
  \<^verbatim>\<open>a > b\<close> of two numbers is exact.) Doubles end below \<open>2^1024\<close>, where a sum
  becomes \<^verbatim>\<open>Infinity\<close>, which is no integer; \<open>numberAdd\<close> is the sum of two doubles
  below that magnitude. Every statement below about the value of a sum is made for
  integers up to magnitude \<open>2^53\<close>, all of them doubles, where the sum is exact.
\<close>

definition numberAdd :: "int \<Rightarrow> int \<Rightarrow> int" where
  "numberAdd a b = roundToDouble (a + b)"

type_synonym iref = nat
type_synonym aref = nat

text \<open>
  The store: the item objects and the arrays allocated so far, each addressed by its
  position. An array holds references to item objects.
\<close>

record store =
  objects :: "item list"
  arrays :: "iref list list"

datatype error = TypeError

text \<open>
  Property access \<^verbatim>\<open>item.name\<close>, \<^verbatim>\<open>item.power\<close>, \<^verbatim>\<open>item.broken\<close> needs an item
  object behind the reference; on anything else (an \<^verbatim>\<open>undefined\<close> element) JavaScript
  throws a TypeError. A reference is an address of the store; an address beyond the
  objects allocated so far stands for no item object, at the moment of the access only:
  the arrays of a well-formed inventory (below) hold no such address.
\<close>

definition getItem :: "store \<Rightarrow> iref \<Rightarrow> error + item" where
  "getItem s r = (if r < length (objects s) then Inr (objects s ! r) else Inl TypeError)"

definition getArray :: "store \<Rightarrow> aref \<Rightarrow> error + iref list" where
  "getArray s a = (if a < length (arrays s) then Inr (arrays s ! a) else Inl TypeError)"

text \<open>An object literal \<^verbatim>\<open>{ ... }\<close> and an array creation allocate at a fresh address.\<close>

definition newItem :: "store \<Rightarrow> item \<Rightarrow> iref \<times> store" where
  "newItem s it = (length (objects s), s\<lparr>objects := objects s @ [it]\<rparr>)"

definition newArray :: "store \<Rightarrow> iref list \<Rightarrow> aref \<times> store" where
  "newArray s xs = (length (arrays s), s\<lparr>arrays := arrays s @ [xs]\<rparr>)"

text \<open>\<^verbatim>\<open>array.push(x)\<close> appends to the array in place.\<close>

definition arrayPush :: "store \<Rightarrow> aref \<Rightarrow> iref \<Rightarrow> error + store" where
  "arrayPush s a r =
     (if a < length (arrays s) then Inr (s\<lparr>arrays := (arrays s)[a := arrays s ! a @ [r]]\<rparr>)
      else Inl TypeError)"

subsection \<open>The array methods\<close>

text \<open>
  Each method reads the receiver and calls the callback on the elements in index order.
  \<^verbatim>\<open>map\<close>, \<^verbatim>\<open>filter\<close> and \<^verbatim>\<open>reduce\<close> visit every element; \<^verbatim>\<open>find\<close>,
  \<^verbatim>\<open>findIndex\<close> and \<^verbatim>\<open>some\<close> stop at the first element the callback accepts,
  \<^verbatim>\<open>every\<close> at the first it rejects. An exception thrown by the callback ends the
  method. The callback of \<^verbatim>\<open>map\<close> may allocate, so it returns the store. No callback
  of the script writes to an array, so each method reads the receiver's elements once,
  before its loop; the array a method returns is allocated when its elements are known.
\<close>

fun mapLoop :: "(store \<Rightarrow> iref \<Rightarrow> error + iref \<times> store) \<Rightarrow> store \<Rightarrow> iref list
    \<Rightarrow> error + iref list \<times> store" where
  "mapLoop f s [] = Inr ([], s)"
| "mapLoop f s (x # xs) =
     (case f s x of
        Inl e \<Rightarrow> Inl e
      | Inr (y, s') \<Rightarrow>
          (case mapLoop f s' xs of
             Inl e \<Rightarrow> Inl e
           | Inr (ys, s'') \<Rightarrow> Inr (y # ys, s'')))"

definition arrayMap :: "(store \<Rightarrow> iref \<Rightarrow> error + iref \<times> store) \<Rightarrow> store \<Rightarrow> aref
    \<Rightarrow> error + aref \<times> store" where
  "arrayMap f s a =
     (case getArray s a of
        Inl e \<Rightarrow> Inl e
      | Inr xs \<Rightarrow>
          (case mapLoop f s xs of
             Inl e \<Rightarrow> Inl e
           | Inr (ys, s') \<Rightarrow> Inr (newArray s' ys)))"

fun filterLoop :: "(store \<Rightarrow> iref \<Rightarrow> error + bool) \<Rightarrow> store \<Rightarrow> iref list
    \<Rightarrow> error + iref list" where
  "filterLoop p s [] = Inr []"
| "filterLoop p s (x # xs) =
     (case p s x of
        Inl e \<Rightarrow> Inl e
      | Inr b \<Rightarrow>
          (case filterLoop p s xs of
             Inl e \<Rightarrow> Inl e
           | Inr ys \<Rightarrow> Inr (if b then x # ys else ys)))"

definition arrayFilter :: "(store \<Rightarrow> iref \<Rightarrow> error + bool) \<Rightarrow> store \<Rightarrow> aref
    \<Rightarrow> error + aref \<times> store" where
  "arrayFilter p s a =
     (case getArray s a of
        Inl e \<Rightarrow> Inl e
      | Inr xs \<Rightarrow>
          (case filterLoop p s xs of
             Inl e \<Rightarrow> Inl e
           | Inr ys \<Rightarrow> Inr (newArray s ys)))"

text \<open>\<^verbatim>\<open>find\<close> returns the element itself, or \<^verbatim>\<open>undefined\<close> (here \<open>None\<close>).\<close>

fun findLoop :: "(store \<Rightarrow> iref \<Rightarrow> error + bool) \<Rightarrow> store \<Rightarrow> iref list
    \<Rightarrow> error + iref option" where
  "findLoop p s [] = Inr None"
| "findLoop p s (x # xs) =
     (case p s x of
        Inl e \<Rightarrow> Inl e
      | Inr b \<Rightarrow> if b then Inr (Some x) else findLoop p s xs)"

definition arrayFind :: "(store \<Rightarrow> iref \<Rightarrow> error + bool) \<Rightarrow> store \<Rightarrow> aref
    \<Rightarrow> error + iref option" where
  "arrayFind p s a =
     (case getArray s a of Inl e \<Rightarrow> Inl e | Inr xs \<Rightarrow> findLoop p s xs)"

text \<open>\<^verbatim>\<open>findIndex\<close> returns the index, or the number \<^verbatim>\<open>-1\<close>.\<close>

fun findIndexLoop :: "(store \<Rightarrow> iref \<Rightarrow> error + bool) \<Rightarrow> store \<Rightarrow> int \<Rightarrow> iref list
    \<Rightarrow> error + int" where
  "findIndexLoop p s k [] = Inr (- 1)"
| "findIndexLoop p s k (x # xs) =
     (case p s x of
        Inl e \<Rightarrow> Inl e
      | Inr b \<Rightarrow> if b then Inr k else findIndexLoop p s (k + 1) xs)"

definition arrayFindIndex :: "(store \<Rightarrow> iref \<Rightarrow> error + bool) \<Rightarrow> store \<Rightarrow> aref
    \<Rightarrow> error + int" where
  "arrayFindIndex p s a =
     (case getArray s a of Inl e \<Rightarrow> Inl e | Inr xs \<Rightarrow> findIndexLoop p s 0 xs)"

fun someLoop :: "(store \<Rightarrow> iref \<Rightarrow> error + bool) \<Rightarrow> store \<Rightarrow> iref list \<Rightarrow> error + bool" where
  "someLoop p s [] = Inr False"
| "someLoop p s (x # xs) =
     (case p s x of
        Inl e \<Rightarrow> Inl e
      | Inr b \<Rightarrow> if b then Inr True else someLoop p s xs)"

definition arraySome :: "(store \<Rightarrow> iref \<Rightarrow> error + bool) \<Rightarrow> store \<Rightarrow> aref \<Rightarrow> error + bool" where
  "arraySome p s a =
     (case getArray s a of Inl e \<Rightarrow> Inl e | Inr xs \<Rightarrow> someLoop p s xs)"

fun everyLoop :: "(store \<Rightarrow> iref \<Rightarrow> error + bool) \<Rightarrow> store \<Rightarrow> iref list \<Rightarrow> error + bool" where
  "everyLoop p s [] = Inr True"
| "everyLoop p s (x # xs) =
     (case p s x of
        Inl e \<Rightarrow> Inl e
      | Inr b \<Rightarrow> if b then everyLoop p s xs else Inr False)"

definition arrayEvery :: "(store \<Rightarrow> iref \<Rightarrow> error + bool) \<Rightarrow> store \<Rightarrow> aref \<Rightarrow> error + bool" where
  "arrayEvery p s a =
     (case getArray s a of Inl e \<Rightarrow> Inl e | Inr xs \<Rightarrow> everyLoop p s xs)"

text \<open>\<^verbatim>\<open>reduce(callback, initialValue)\<close> with a numeric accumulator.\<close>

fun reduceLoop :: "(int \<Rightarrow> store \<Rightarrow> iref \<Rightarrow> error + int) \<Rightarrow> store \<Rightarrow> int \<Rightarrow> iref list
    \<Rightarrow> error + int" where
  "reduceLoop f s acc [] = Inr acc"
| "reduceLoop f s acc (x # xs) =
     (case f acc s x of
        Inl e \<Rightarrow> Inl e
      | Inr acc' \<Rightarrow> reduceLoop f s acc' xs)"

definition arrayReduce :: "(int \<Rightarrow> store \<Rightarrow> iref \<Rightarrow> error + int) \<Rightarrow> int \<Rightarrow> store \<Rightarrow> aref
    \<Rightarrow> error + int" where
  "arrayReduce f init s a =
     (case getArray s a of Inl e \<Rightarrow> Inl e | Inr xs \<Rightarrow> reduceLoop f s init xs)"

subsection \<open>The statements of the script\<close>

text \<open>
  \<^verbatim>\<open>let inventory = [ { name: "Sword", power: 10, broken: false }, ... ]\<close>: four object
  literals, then the array of them.
\<close>

definition inventory :: "store \<Rightarrow> aref \<times> store" where
  "inventory s =
     (let (r0, s0) = newItem s \<lparr>name = ''Sword'', power_val = 10, broken = False\<rparr>;
          (r1, s1) = newItem s0 \<lparr>name = ''Shield'', power_val = 5, broken = False\<rparr>;
          (r2, s2) = newItem s1 \<lparr>name = ''Bow'', power_val = 8, broken = True\<rparr>;
          (r3, s3) = newItem s2 \<lparr>name = ''Axe'', power_val = 12, broken = False\<rparr>
      in newArray s3 [r0, r1, r2, r3])"

text \<open>
  The \<^verbatim>\<open>for\<close> loop of \<open>upgradedInventoryLoop\<close>:
  \<^verbatim>\<open>for (let i = 0; i < inventory.length; i++) { upgradedInventoryLoop.push({ name:
  inventory[i].name, power: inventory[i].power + 5, broken: inventory[i].broken }); }\<close>.
  The length is read again at every test, and \<^verbatim>\<open>push\<close> writes to the store, so a loop
  whose two arrays are the same array never ends: \<open>None\<close> is not returning.
\<close>

partial_function (option) forLoop :: "store \<Rightarrow> aref \<Rightarrow> aref \<Rightarrow> nat \<Rightarrow> (error + store) option" where
  "forLoop s arr out i =
     (case getArray s arr of
        Inl e \<Rightarrow> Some (Inl e)
      | Inr xs \<Rightarrow>
          if i < length xs then
            (case getItem s (xs ! i) of
               Inl e \<Rightarrow> Some (Inl e)
             | Inr it \<Rightarrow>
                 (case newItem s \<lparr>name = name it, power_val = numberAdd (power_val it) 5, broken = broken it\<rparr> of
                    (r, s1) \<Rightarrow>
                      (case arrayPush s1 out r of
                         Inl e \<Rightarrow> Some (Inl e)
                       | Inr s2 \<Rightarrow> forLoop s2 arr out (i + 1))))
          else Some (Inr s))"

text \<open>\<^verbatim>\<open>const upgradedInventoryLoop = [];\<close> followed by the loop.\<close>

definition upgradedInventoryLoop :: "store \<Rightarrow> aref \<Rightarrow> (error + aref \<times> store) option" where
  "upgradedInventoryLoop s arr =
     (case newArray s [] of
        (out, s0) \<Rightarrow>
          (case forLoop s0 arr out 0 of
             None \<Rightarrow> None
           | Some (Inl e) \<Rightarrow> Some (Inl e)
           | Some (Inr s1) \<Rightarrow> Some (Inr (out, s1))))"

text \<open>
  \<^verbatim>\<open>item => { return { name: item.name, power: item.power + 5, broken: item.broken }; }\<close>
\<close>

definition upgradeFields :: "store \<Rightarrow> iref \<Rightarrow> error + iref \<times> store" where
  "upgradeFields s r =
     (case getItem s r of
        Inl e \<Rightarrow> Inl e
      | Inr it \<Rightarrow>
          Inr (newItem s \<lparr>name = name it, power_val = numberAdd (power_val it) 5, broken = broken it\<rparr>))"

text \<open>\<^verbatim>\<open>item => ({ ...item, power: item.power + 5 })\<close>\<close>

definition upgradeSpread :: "store \<Rightarrow> iref \<Rightarrow> error + iref \<times> store" where
  "upgradeSpread s r =
     (case getItem s r of
        Inl e \<Rightarrow> Inl e
      | Inr it \<Rightarrow> Inr (newItem s (it\<lparr>power_val := numberAdd (power_val it) 5\<rparr>)))"

definition upgradedInventoryMap :: "store \<Rightarrow> aref \<Rightarrow> error + aref \<times> store" where
  "upgradedInventoryMap s arr = arrayMap upgradeFields s arr"

definition upgradedInventoryConcise :: "store \<Rightarrow> aref \<Rightarrow> error + aref \<times> store" where
  "upgradedInventoryConcise s arr = arrayMap upgradeSpread s arr"

text \<open>\<^verbatim>\<open>item => item.broken === false\<close> and \<^verbatim>\<open>item => !item.broken\<close>\<close>

definition brokenIsFalse :: "store \<Rightarrow> iref \<Rightarrow> error + bool" where
  "brokenIsFalse s r =
     (case getItem s r of Inl e \<Rightarrow> Inl e | Inr it \<Rightarrow> Inr (broken it = False))"

definition notBroken :: "store \<Rightarrow> iref \<Rightarrow> error + bool" where
  "notBroken s r =
     (case getItem s r of Inl e \<Rightarrow> Inl e | Inr it \<Rightarrow> Inr (\<not> broken it))"

definition usableInventory :: "store \<Rightarrow> aref \<Rightarrow> error + aref \<times> store" where
  "usableInventory s arr = arrayFilter brokenIsFalse s arr"

definition usableInventoryAlt :: "store \<Rightarrow> aref \<Rightarrow> error + aref \<times> store" where
  "usableInventoryAlt s arr = arrayFilter notBroken s arr"

text \<open>
  \<^verbatim>\<open>inputInventory => inputInventory.map(item => ({ ...item, power: item.power + 5
  })).filter(item => !item.broken)\<close>
\<close>

definition upgradeAndFilterInventory :: "store \<Rightarrow> aref \<Rightarrow> error + aref \<times> store" where
  "upgradeAndFilterInventory s inputInventory =
     (case arrayMap upgradeSpread s inputInventory of
        Inl e \<Rightarrow> Inl e
      | Inr (mapped, s') \<Rightarrow> arrayFilter notBroken s' mapped)"

text \<open>\<^verbatim>\<open>inventory.find(item => item.power > 10)\<close>\<close>

definition powerAboveTen :: "store \<Rightarrow> iref \<Rightarrow> error + bool" where
  "powerAboveTen s r =
     (case getItem s r of Inl e \<Rightarrow> Inl e | Inr it \<Rightarrow> Inr (power_val it > 10))"

definition powerfulItem :: "store \<Rightarrow> aref \<Rightarrow> error + iref option" where
  "powerfulItem s arr = arrayFind powerAboveTen s arr"

text \<open>\<^verbatim>\<open>inventory.findIndex(item => item.broken)\<close> and \<^verbatim>\<open>inventory.some(item => item.broken)\<close>\<close>

definition isBroken :: "store \<Rightarrow> iref \<Rightarrow> error + bool" where
  "isBroken s r =
     (case getItem s r of Inl e \<Rightarrow> Inl e | Inr it \<Rightarrow> Inr (broken it))"

definition brokenItemIndex :: "store \<Rightarrow> aref \<Rightarrow> error + int" where
  "brokenItemIndex s arr = arrayFindIndex isBroken s arr"

definition hasBrokenItems :: "store \<Rightarrow> aref \<Rightarrow> error + bool" where
  "hasBrokenItems s arr = arraySome isBroken s arr"

text \<open>\<^verbatim>\<open>inventory.every(item => item.power > 5)\<close>\<close>

definition powerAboveFive :: "store \<Rightarrow> iref \<Rightarrow> error + bool" where
  "powerAboveFive s r =
     (case getItem s r of Inl e \<Rightarrow> Inl e | Inr it \<Rightarrow> Inr (power_val it > 5))"

definition allPowerful :: "store \<Rightarrow> aref \<Rightarrow> error + bool" where
  "allPowerful s arr = arrayEvery powerAboveFive s arr"

text \<open>\<^verbatim>\<open>inventory.reduce((sum, item) => sum + item.power, 0)\<close>\<close>

definition addPower :: "int \<Rightarrow> store \<Rightarrow> iref \<Rightarrow> error + int" where
  "addPower acc s r =
     (case getItem s r of Inl e \<Rightarrow> Inl e | Inr it \<Rightarrow> Inr (numberAdd acc (power_val it)))"

definition totalPower :: "store \<Rightarrow> aref \<Rightarrow> error + int" where
  "totalPower s arr = arrayReduce addPower 0 s arr"

subsection \<open>Observing a store\<close>




text \<open>
  A well-formed item sequence: an array of the store whose elements all refer to item
  objects of the store.
\<close>

definition wellFormed :: "store \<Rightarrow> aref \<Rightarrow> bool" where
  "wellFormed s a = (a < length (arrays s) \<and> list_all (\<lambda>r. r < length (objects s)) (arrays s ! a))"

text \<open>The sequence of items an array holds, read through the store.\<close>

definition itemsOf :: "store \<Rightarrow> aref \<Rightarrow> item list" where
  "itemsOf s a = map (\<lambda>r. objects s ! r) (arrays s ! a)"

text \<open>The items of the array a statement produced, or the exception it threw.\<close>

definition resultItems :: "error + aref \<times> store \<Rightarrow> error + item list" where
  "resultItems res = (case res of Inl e \<Rightarrow> Inl e | Inr (a, s) \<Rightarrow> Inr (itemsOf s a))"

text \<open>
  The store and the value of \<^verbatim>\<open>inventory\<close> once the script has run its array
  literal, starting from nothing allocated.
\<close>

definition scriptStore :: store where
  "scriptStore = snd (inventory \<lparr>objects = [], arrays = []\<rparr>)"

definition scriptInventory :: aref where
  "scriptInventory = fst (inventory \<lparr>objects = [], arrays = []\<rparr>)"

text \<open>
  Two more stores for concrete runs: the same four items held by the arrays
  \<open>[Sword, Shield]\<close>, \<open>[Bow, Axe]\<close>, their concatenation, the empty array and
  \<open>[Bow]\<close>; and a single unbroken item of power 5.
\<close>

definition splitStore :: store where
  "splitStore = \<lparr>objects =
      [\<lparr>name = ''Sword'', power_val = 10, broken = False\<rparr>,
       \<lparr>name = ''Shield'', power_val = 5, broken = False\<rparr>,
       \<lparr>name = ''Bow'', power_val = 8, broken = True\<rparr>,
       \<lparr>name = ''Axe'', power_val = 12, broken = False\<rparr>],
     arrays = [[0, 1], [2, 3], [0, 1, 2, 3], [], [2]]\<rparr>"

definition shieldStore :: store where
  "shieldStore = \<lparr>objects = [\<lparr>name = ''Shield'', power_val = 5, broken = False\<rparr>],
     arrays = [[0]]\<rparr>"

text \<open>
  A store with large powers, all of them safe integers (below \<open>2^53\<close>):
  \<open>2^53 - 1\<close>, three times 1, and \<open>2^53 - 2\<close>. Its arrays are two halves of the
  first four items, their concatenation, and the last item alone.
\<close>

definition largeStore :: store where
  "largeStore = \<lparr>objects =
      [\<lparr>name = ''Sword'', power_val = 9007199254740991, broken = False\<rparr>,
       \<lparr>name = ''Shield'', power_val = 1, broken = False\<rparr>,
       \<lparr>name = ''Bow'', power_val = 1, broken = True\<rparr>,
       \<lparr>name = ''Axe'', power_val = 1, broken = False\<rparr>,
       \<lparr>name = ''Dagger'', power_val = 9007199254740990, broken = False\<rparr>],
     arrays = [[0, 1], [2, 3], [0, 1, 2, 3], [4]]\<rparr>"

text \<open>The object both upgrade callbacks build from an item.\<close>

definition plus5 :: "item \<Rightarrow> item" where
  "plus5 it = \<lparr>name = name it, power_val = numberAdd (power_val it) 5, broken = broken it\<rparr>"

section \<open>Addition of numbers\<close>

declare ulpOf.simps [simp del]

lemma ulpOf_small: "m < 9007199254740992 \<Longrightarrow> ulpOf m = 1"
  by (simp add: ulpOf.simps)

lemma ulpOf_large: "9007199254740992 \<le> m \<Longrightarrow> ulpOf m = 2 * ulpOf (m div 2)"
  by (subst ulpOf.simps) simp

text \<open>Up to magnitude \<open>2^53\<close> every integer is a double, and a sum that small is exact.\<close>

lemma roundToDouble_exact:
  assumes "\<bar>x\<bar> \<le> 2 ^ 53"
  shows "roundToDouble x = x"
proof (cases "\<bar>x\<bar> < 2 ^ 53")
  case True
  then have "nat \<bar>x\<bar> < 9007199254740992" by simp
  then have "ulpOf (nat \<bar>x\<bar>) = 1" by (rule ulpOf_small)
  then show ?thesis
    by (simp add: roundToDouble_def Let_def mult_sgn_abs)
next
  case False
  with assms have m: "\<bar>x\<bar> = 9007199254740992" by simp
  then have n: "nat \<bar>x\<bar> = 9007199254740992" by simp
  have "ulpOf 9007199254740992 = 2"
    by (simp add: ulpOf_large ulpOf_small)
  then have "roundToDouble x = sgn x * 9007199254740992"
    unfolding roundToDouble_def n by (simp add: Let_def)
  also have "\<dots> = sgn x * \<bar>x\<bar>" unfolding m ..
  also have "\<dots> = x" by (rule mult_sgn_abs)
  finally show ?thesis .
qed

lemma numberAdd_exact: "\<bar>a + b\<bar> \<le> 2 ^ 53 \<Longrightarrow> numberAdd a b = a + b"
  by (simp add: numberAdd_def roundToDouble_exact)

text \<open>
  A left fold of additions is exact when the magnitudes of the start value and of all
  addends sum to at most \<open>2^53\<close>: then no partial sum leaves that range.
\<close>

lemma foldl_numberAdd_exact:
  "\<bar>acc\<bar> + sum_list (map abs xs) \<le> 2 ^ 53 \<Longrightarrow> foldl numberAdd acc xs = acc + sum_list xs"
proof (induction xs arbitrary: acc)
  case Nil
  then show ?case by simp
next
  case (Cons x xs)
  have nonneg: "0 \<le> sum_list (map abs xs)"
    by (rule sum_list_nonneg) auto
  from Cons.prems nonneg have "\<bar>acc + x\<bar> \<le> 2 ^ 53"
    by simp
  then have step: "numberAdd acc x = acc + x"
    by (rule numberAdd_exact)
  from Cons.prems have "\<bar>acc + x\<bar> + sum_list (map abs xs) \<le> 2 ^ 53"
    by simp
  then have "foldl numberAdd (acc + x) xs = acc + x + sum_list xs"
    by (rule Cons.IH)
  with step show ?case by simp
qed

lemma filter_upgraded:
  "filter (\<lambda>it. broken it = False) (map (\<lambda>it. it\<lparr>power_val := f it\<rparr>) xs) =
   map (\<lambda>it. it\<lparr>power_val := f it\<rparr>) (filter (\<lambda>it. broken it = False) xs)"
  by (induction xs) simp_all

lemma upgrade_exact:
  assumes "list_all (\<lambda>it. - (2 ^ 53) \<le> power_val it \<and> power_val it + 5 \<le> 2 ^ 53) xs"
  shows "map (\<lambda>it. it\<lparr>power_val := numberAdd (power_val it) 5\<rparr>) xs =
         map (\<lambda>it. it\<lparr>power_val := power_val it + 5\<rparr>) xs"
proof (rule map_cong [OF refl])
  fix it
  assume "it \<in> set xs"
  with assms have "- (2 ^ 53) \<le> power_val it" and "power_val it + 5 \<le> 2 ^ 53"
    by (simp_all add: list_all_iff)
  then have "\<bar>power_val it + 5\<bar> \<le> 2 ^ 53"
    by simp
  then show "it\<lparr>power_val := numberAdd (power_val it) 5\<rparr> = it\<lparr>power_val := power_val it + 5\<rparr>"
    by (simp add: numberAdd_exact)
qed

section \<open>What the loops compute\<close>

subsection \<open>The callbacks\<close>

lemma plus5_spread: "it\<lparr>power_val := numberAdd (power_val it) 5\<rparr> = plus5 it"
  by (cases it) (simp add: plus5_def)

lemma upgradeSpread_eq: "upgradeSpread = upgradeFields"
  by (intro ext) (simp add: upgradeSpread_def upgradeFields_def plus5_spread [unfolded plus5_def] split: sum.splits)

lemma notBroken_eq: "brokenIsFalse = notBroken"
  by (intro ext) (simp add: brokenIsFalse_def notBroken_def split: sum.splits)

lemma upgradeFields_ok:
  "r < length (objects s) \<Longrightarrow>
   upgradeFields s r = Inr (length (objects s), s\<lparr>objects := objects s @ [plus5 (objects s ! r)]\<rparr>)"
  by (simp add: upgradeFields_def getItem_def newItem_def plus5_def)

subsection \<open>The loops of the array methods, on valid references\<close>

lemma upt_from_Cons: "[n ..< n + Suc k] = n # [Suc n ..< Suc n + k]"
  by (simp add: upt_conv_Cons del: upt_Suc)

lemma mapLoop_upgrade:
  "list_all (\<lambda>r. r < length (objects s)) xs \<Longrightarrow>
   mapLoop upgradeFields s xs =
     Inr ([length (objects s) ..< length (objects s) + length xs],
          s\<lparr>objects := objects s @ map (\<lambda>r. plus5 (objects s ! r)) xs\<rparr>)"
proof (induction xs arbitrary: s)
  case Nil
  then show ?case by simp
next
  case (Cons x xs)
  let ?s' = "s\<lparr>objects := objects s @ [plus5 (objects s ! x)]\<rparr>"
  from Cons.prems have x: "x < length (objects s)"
    and xs: "list_all (\<lambda>r. r < length (objects s)) xs" by simp_all
  from xs have xs': "list_all (\<lambda>r. r < length (objects ?s')) xs"
    by (simp add: list_all_iff) (meson less_Suc_eq)
  have same: "map (\<lambda>r. plus5 (objects ?s' ! r)) xs = map (\<lambda>r. plus5 (objects s ! r)) xs"
    using xs by (simp add: list_all_iff nth_append)
  have "mapLoop upgradeFields s (x # xs) =
    (case mapLoop upgradeFields ?s' xs of Inl e \<Rightarrow> Inl e
     | Inr (ys, s'') \<Rightarrow> Inr (length (objects s) # ys, s''))"
    by (simp add: upgradeFields_ok [OF x])
  also have "\<dots> = Inr (length (objects s) # [length (objects ?s') ..< length (objects ?s') + length xs],
      ?s'\<lparr>objects := objects ?s' @ map (\<lambda>r. plus5 (objects ?s' ! r)) xs\<rparr>)"
    by (simp only: Cons.IH [OF xs'] sum.case prod.case)
  also have "\<dots> = Inr ([length (objects s) ..< length (objects s) + length (x # xs)],
      s\<lparr>objects := objects s @ map (\<lambda>r. plus5 (objects s ! r)) (x # xs)\<rparr>)"
    unfolding same using upt_from_Cons [of "length (objects s)" "length xs"] by simp
  finally show ?case .
qed

lemma filterLoop_notBroken:
  "list_all (\<lambda>r. r < length (objects s)) xs \<Longrightarrow>
   filterLoop notBroken s xs = Inr (filter (\<lambda>r. \<not> broken (objects s ! r)) xs)"
  by (induction xs) (simp_all add: notBroken_def getItem_def)

lemma findLoop_powerAboveTen:
  "list_all (\<lambda>r. r < length (objects s)) xs \<Longrightarrow>
   findLoop powerAboveTen s xs = Inr (List.find (\<lambda>r. 10 < power_val (objects s ! r)) xs)"
  by (induction xs) (simp_all add: powerAboveTen_def getItem_def)

lemma findIndexLoop_isBroken:
  "list_all (\<lambda>r. r < length (objects s)) xs \<Longrightarrow>
   findIndexLoop isBroken s k xs =
     Inr (if \<exists>r \<in> set xs. broken (objects s ! r)
          then k + int (length (takeWhile (\<lambda>r. \<not> broken (objects s ! r)) xs)) else - 1)"
  by (induction xs arbitrary: k) (simp_all add: isBroken_def getItem_def)

lemma someLoop_isBroken:
  "list_all (\<lambda>r. r < length (objects s)) xs \<Longrightarrow>
   someLoop isBroken s xs = Inr (\<exists>r \<in> set xs. broken (objects s ! r))"
  by (induction xs) (simp_all add: isBroken_def getItem_def)

lemma everyLoop_powerAboveFive:
  "list_all (\<lambda>r. r < length (objects s)) xs \<Longrightarrow>
   everyLoop powerAboveFive s xs = Inr (\<forall>r \<in> set xs. 5 < power_val (objects s ! r))"
  by (induction xs) (simp_all add: powerAboveFive_def getItem_def)

lemma reduceLoop_addPower:
  "list_all (\<lambda>r. r < length (objects s)) xs \<Longrightarrow>
   reduceLoop addPower s acc xs =
     Inr (foldl numberAdd acc (map (\<lambda>r. power_val (objects s ! r)) xs))"
  by (induction xs arbitrary: acc) (simp_all add: addPower_def getItem_def)

subsection \<open>The for loop\<close>

text \<open>
  With distinct arrays the loop ends: the distance of \<open>i\<close> to the length of
  \<^verbatim>\<open>inventory\<close> shrinks, since \<^verbatim>\<open>push\<close> grows the other array.
\<close>

lemma forLoop_upgrade:
  "arr < length (arrays s) \<Longrightarrow> out < length (arrays s) \<Longrightarrow> arr \<noteq> out \<Longrightarrow>
   list_all (\<lambda>r. r < length (objects s)) (arrays s ! arr) \<Longrightarrow>
   n = length (arrays s ! arr) - i \<Longrightarrow>
   forLoop s arr out i =
     Some (Inr (s\<lparr>objects := objects s @ map (\<lambda>r. plus5 (objects s ! r)) (drop i (arrays s ! arr)),
                  arrays := (arrays s)[out := arrays s ! out @
                    [length (objects s) ..< length (objects s) + (length (arrays s ! arr) - i)]]\<rparr>))"
proof (induction n arbitrary: s i)
  case 0
  then have "\<not> i < length (arrays s ! arr)" by simp
  with 0 show ?case
    by (subst forLoop.simps) (simp add: getArray_def)
next
  case (Suc n)
  let ?xs = "arrays s ! arr"
  let ?n = "length (objects s)"
  let ?s2 = "s\<lparr>objects := objects s @ [plus5 (objects s ! (?xs ! i))],
               arrays := (arrays s)[out := arrays s ! out @ [?n]]\<rparr>"
  from Suc.prems have i: "i < length ?xs" by simp
  with Suc.prems have xi: "?xs ! i < ?n" by (simp add: list_all_length)
  have step: "forLoop s arr out i = forLoop ?s2 arr out (i + 1)"
    using Suc.prems i xi
    by (subst forLoop.simps)
      (simp add: getArray_def getItem_def newItem_def arrayPush_def plus5_def)
  have arr2: "arrays ?s2 ! arr = ?xs" using Suc.prems by simp
  have out2: "arrays ?s2 ! out = arrays s ! out @ [?n]" using Suc.prems by simp
  have valid2: "list_all (\<lambda>r. r < length (objects ?s2)) (arrays ?s2 ! arr)"
    using Suc.prems(4) unfolding arr2 by (simp add: list_all_iff) (meson less_Suc_eq)
  have n2: "n = length (arrays ?s2 ! arr) - (i + 1)"
    using Suc.prems(5) unfolding arr2 by simp
  have same: "map (\<lambda>r. plus5 (objects ?s2 ! r)) (drop (i + 1) ?xs) =
      map (\<lambda>r. plus5 (objects s ! r)) (drop (i + 1) ?xs)"
    using Suc.prems(4) by (auto simp: list_all_iff nth_append dest: in_set_dropD)
  have range: "[?n ..< ?n + (length ?xs - i)] = ?n # [Suc ?n ..< Suc ?n + (length ?xs - (i + 1))]"
    using i upt_from_Cons [of ?n "length ?xs - (i + 1)"] by (simp add: Suc_diff_Suc)
  have "forLoop ?s2 arr out (i + 1) =
     Some (Inr (?s2\<lparr>objects := objects ?s2 @ map (\<lambda>r. plus5 (objects ?s2 ! r)) (drop (i + 1) (arrays ?s2 ! arr)),
                  arrays := (arrays ?s2)[out := arrays ?s2 ! out @
                    [length (objects ?s2) ..< length (objects ?s2) + (length (arrays ?s2 ! arr) - (i + 1))]]\<rparr>))"
    using Suc.prems by (intro Suc.IH [OF _ _ _ valid2 n2]) simp_all
  also have "\<dots> = Some (Inr (s\<lparr>objects := objects s @ map (\<lambda>r. plus5 (objects s ! r)) (drop i ?xs),
                  arrays := (arrays s)[out := arrays s ! out @ [?n ..< ?n + (length ?xs - i)]]\<rparr>))"
    unfolding arr2 out2 same range
    using i by (simp add: Cons_nth_drop_Suc [symmetric])
  finally show ?case using step by simp
qed

subsection \<open>The script's store\<close>

lemma scriptStore_eq:
  "scriptStore = \<lparr>objects =
      [\<lparr>name = ''Sword'', power_val = 10, broken = False\<rparr>,
       \<lparr>name = ''Shield'', power_val = 5, broken = False\<rparr>,
       \<lparr>name = ''Bow'', power_val = 8, broken = True\<rparr>,
       \<lparr>name = ''Axe'', power_val = 12, broken = False\<rparr>],
     arrays = [[0, 1, 2, 3]]\<rparr>"
  by (simp add: scriptStore_def inventory_def newItem_def newArray_def eval_nat_numeral)

lemma scriptInventory_eq: "scriptInventory = 0"
  by (simp add: scriptInventory_def inventory_def newItem_def newArray_def)

lemma wellFormed_script: "wellFormed scriptStore scriptInventory"
  by (simp add: wellFormed_def scriptStore_eq scriptInventory_eq)

lemma itemsOf_script:
  "itemsOf scriptStore scriptInventory =
      [\<lparr>name = ''Sword'', power_val = 10, broken = False\<rparr>,
       \<lparr>name = ''Shield'', power_val = 5, broken = False\<rparr>,
       \<lparr>name = ''Bow'', power_val = 8, broken = True\<rparr>,
       \<lparr>name = ''Axe'', power_val = 12, broken = False\<rparr>]"
  by (simp add: itemsOf_def scriptStore_eq scriptInventory_eq)

subsection \<open>The statements on a well-formed inventory\<close>

lemma nth_appended_range: "map ((!) (xs @ ys)) [length xs ..< length xs + length ys] = ys"
  by (rule nth_equalityI) (simp_all add: nth_append)

lemma arrayMap_upgrade:
  assumes "wellFormed s arr"
  shows "arrayMap upgradeFields s arr =
     Inr (length (arrays s),
          s\<lparr>objects := objects s @ map (\<lambda>r. plus5 (objects s ! r)) (arrays s ! arr),
            arrays := arrays s @
              [[length (objects s) ..< length (objects s) + length (arrays s ! arr)]]\<rparr>)"
  using assms
  by (simp add: wellFormed_def arrayMap_def getArray_def mapLoop_upgrade newArray_def)

lemma arrayFilter_notBroken:
  assumes "wellFormed s arr"
  shows "arrayFilter notBroken s arr =
     Inr (length (arrays s),
          s\<lparr>arrays := arrays s @ [filter (\<lambda>r. \<not> broken (objects s ! r)) (arrays s ! arr)]\<rparr>)"
  using assms
  by (simp add: wellFormed_def arrayFilter_def getArray_def filterLoop_notBroken newArray_def)

lemma wellFormed_upgraded:
  "wellFormed
     (s\<lparr>objects := objects s @ map f (arrays s ! arr),
        arrays := arrays s @ [[length (objects s) ..< length (objects s) + length (arrays s ! arr)]]\<rparr>)
     (length (arrays s))"
  by (simp add: wellFormed_def list_all_iff)

lemma itemsOf_upgraded:
  "itemsOf
     (s\<lparr>objects := objects s @ map f (arrays s ! arr),
        arrays := arrays s @ [[length (objects s) ..< length (objects s) + length (arrays s ! arr)]]\<rparr>)
     (length (arrays s)) = map f (arrays s ! arr)"
  using nth_appended_range [of "objects s" "map f (arrays s ! arr)"]
  by (simp add: itemsOf_def)

lemma wellFormed_kept:
  assumes "wellFormed s arr"
  shows "wellFormed (s\<lparr>objects := objects s @ new, arrays := arrays s @ newer\<rparr>) arr"
  using assms by (auto simp: wellFormed_def nth_append list_all_iff)

lemma itemsOf_kept:
  assumes "wellFormed s arr"
  shows "itemsOf (s\<lparr>objects := objects s @ new, arrays := arrays s @ newer\<rparr>) arr = itemsOf s arr"
  using assms by (simp add: wellFormed_def itemsOf_def nth_append list_all_iff)

lemma wellFormed_filtered:
  assumes "wellFormed s arr"
  shows "wellFormed (s\<lparr>arrays := arrays s @ [filter P (arrays s ! arr)]\<rparr>) (length (arrays s))"
  using assms by (simp add: wellFormed_def list_all_iff)

lemma itemsOf_filtered:
  "itemsOf (s\<lparr>arrays := arrays s @ [filter (\<lambda>r. \<not> broken (objects s ! r)) (arrays s ! arr)]\<rparr>)
     (length (arrays s)) = filter (\<lambda>it. broken it = False) (itemsOf s arr)"
  by (simp add: itemsOf_def filter_map comp_def)

lemma itemsOf_kept_arrays:
  assumes "wellFormed s arr"
  shows "itemsOf (s\<lparr>arrays := arrays s @ newer\<rparr>) arr = itemsOf s arr"
  using assms by (simp add: wellFormed_def itemsOf_def nth_append)

lemma totalPower_foldl:
  assumes "wellFormed s arr"
  shows "totalPower s arr = Inr (foldl numberAdd 0 (map power_val (itemsOf s arr)))"
  using assms
  by (simp add: wellFormed_def totalPower_def arrayReduce_def getArray_def reduceLoop_addPower
      itemsOf_def comp_def)

lemma totalPower_sum_list:
  assumes "wellFormed s arr"
    and "sum_list (map (\<lambda>it. \<bar>power_val it\<bar>) (itemsOf s arr)) \<le> 2 ^ 53"
  shows "totalPower s arr = Inr (sum_list (map power_val (itemsOf s arr)))"
proof -
  from assms(2) have "\<bar>0\<bar> + sum_list (map abs (map power_val (itemsOf s arr))) \<le> 2 ^ 53"
    by (simp add: comp_def)
  then have "foldl numberAdd 0 (map power_val (itemsOf s arr)) =
      0 + sum_list (map power_val (itemsOf s arr))"
    by (rule foldl_numberAdd_exact)
  then show ?thesis
    by (simp add: totalPower_foldl [OF assms(1)])
qed

lemma powerfulItem_find:
  assumes "wellFormed s arr"
  shows "powerfulItem s arr = Inr (List.find (\<lambda>r. 10 < power_val (objects s ! r)) (arrays s ! arr))"
  using assms
  by (simp add: wellFormed_def powerfulItem_def arrayFind_def getArray_def findLoop_powerAboveTen)

lemma brokenItemIndex_takeWhile:
  assumes "wellFormed s arr"
  shows "brokenItemIndex s arr =
     Inr (if \<exists>r \<in> set (arrays s ! arr). broken (objects s ! r)
          then int (length (takeWhile (\<lambda>r. \<not> broken (objects s ! r)) (arrays s ! arr)))
          else - 1)"
  using assms
  by (simp add: wellFormed_def brokenItemIndex_def arrayFindIndex_def getArray_def
      findIndexLoop_isBroken)

lemma hasBrokenItems_exists:
  assumes "wellFormed s arr"
  shows "hasBrokenItems s arr = Inr (\<exists>it \<in> set (itemsOf s arr). broken it)"
  using assms
  by (simp add: wellFormed_def hasBrokenItems_def arraySome_def getArray_def someLoop_isBroken
      itemsOf_def)

lemma allPowerful_forall:
  assumes "wellFormed s arr"
  shows "allPowerful s arr = Inr (\<forall>it \<in> set (itemsOf s arr). 5 < power_val it)"
  using assms
  by (simp add: wellFormed_def allPowerful_def arrayEvery_def getArray_def everyLoop_powerAboveFive
      itemsOf_def)

lemma upgradedInventoryLoop_run:
  assumes "wellFormed s arr"
  shows "upgradedInventoryLoop s arr =
     Some (Inr (length (arrays s),
          s\<lparr>objects := objects s @ map (\<lambda>r. plus5 (objects s ! r)) (arrays s ! arr),
            arrays := arrays s @
              [[length (objects s) ..< length (objects s) + length (arrays s ! arr)]]\<rparr>))"
proof -
  let ?out = "length (arrays s)"
  let ?s0 = "s\<lparr>arrays := arrays s @ [[]]\<rparr>"
  from assms have arr: "arr < length (arrays s)"
    and valid: "list_all (\<lambda>r. r < length (objects s)) (arrays s ! arr)"
    by (simp_all add: wellFormed_def)
  from arr have same: "arrays ?s0 ! arr = arrays s ! arr"
    by (simp add: nth_append)
  have "forLoop ?s0 arr ?out 0 =
     Some (Inr (?s0\<lparr>objects := objects ?s0 @ map (\<lambda>r. plus5 (objects ?s0 ! r)) (drop 0 (arrays ?s0 ! arr)),
                  arrays := (arrays ?s0)[?out := arrays ?s0 ! ?out @
                    [length (objects ?s0) ..< length (objects ?s0) + (length (arrays ?s0 ! arr) - 0)]]\<rparr>))"
    using arr valid by (intro forLoop_upgrade) (simp_all add: nth_append)
  then have "forLoop ?s0 arr ?out 0 =
     Some (Inr (s\<lparr>objects := objects s @ map (\<lambda>r. plus5 (objects s ! r)) (arrays s ! arr),
            arrays := arrays s @
              [[length (objects s) ..< length (objects s) + length (arrays s ! arr)]]\<rparr>))"
    unfolding same by simp
  then show ?thesis
    by (simp add: upgradedInventoryLoop_def newArray_def)
qed

lemma upgraded_items:
  assumes "wellFormed s arr"
  shows "itemsOf
     (s\<lparr>objects := objects s @ map (\<lambda>r. plus5 (objects s ! r)) (arrays s ! arr),
        arrays := arrays s @
          [[length (objects s) ..< length (objects s) + length (arrays s ! arr)]]\<rparr>)
     (length (arrays s)) = map plus5 (itemsOf s arr)"
  unfolding itemsOf_upgraded by (simp add: itemsOf_def)

section \<open>The claims\<close>

subsection \<open>Upgrading\<close>

text \<open>
  Claim C1, amended: the increment is the constant 5 (the code has no delta), and the
  sum is a number's. For every well-formed inventory, \<open>upgradedInventoryMap\<close> and
  \<open>upgradedInventoryConcise\<close> return the same result: a new array (its address was not
  in use), of the same length as the input, whose elements are newly allocated objects,
  the i-th carrying the \<^verbatim>\<open>name\<close> and \<^verbatim>\<open>broken\<close> of the i-th input item. When every
  power of the input lies between \<open>-2^53\<close> and \<open>2^53 - 5\<close>, where the addition is
  exact, the i-th element is the i-th input item with \<^verbatim>\<open>power\<close> increased by 5. The
  call changes no existing object and no existing array (the old store is a prefix of
  the new one), so the input sequence reads the same afterwards.
\<close>

theorem upgrade_adds_five:
  assumes "wellFormed s arr"
  shows "\<exists>res s'. upgradedInventoryMap s arr = Inr (res, s')
      \<and> upgradedInventoryConcise s arr = Inr (res, s')
      \<and> length (arrays s) \<le> res \<and> wellFormed s' res
      \<and> list_all (\<lambda>r. length (objects s) \<le> r) (arrays s' ! res)
      \<and> length (itemsOf s' res) = length (itemsOf s arr)
      \<and> map name (itemsOf s' res) = map name (itemsOf s arr)
      \<and> map broken (itemsOf s' res) = map broken (itemsOf s arr)
      \<and> (list_all (\<lambda>it. - (2 ^ 53) \<le> power_val it \<and> power_val it + 5 \<le> 2 ^ 53) (itemsOf s arr)
           \<longrightarrow> itemsOf s' res =
                 map (\<lambda>it. it\<lparr>power_val := power_val it + 5\<rparr>) (itemsOf s arr))
      \<and> prefix (objects s) (objects s') \<and> prefix (arrays s) (arrays s')
      \<and> itemsOf s' arr = itemsOf s arr"
proof -
  let ?s' = "s\<lparr>objects := objects s @ map (\<lambda>r. plus5 (objects s ! r)) (arrays s ! arr),
            arrays := arrays s @
              [[length (objects s) ..< length (objects s) + length (arrays s ! arr)]]\<rparr>"
  let ?res = "length (arrays s)"
  have run: "upgradedInventoryMap s arr = Inr (?res, ?s')"
    by (simp add: upgradedInventoryMap_def arrayMap_upgrade [OF assms])
  have concise: "upgradedInventoryConcise s arr = Inr (?res, ?s')"
    by (simp add: upgradedInventoryConcise_def upgradeSpread_eq arrayMap_upgrade [OF assms])
  have wf: "wellFormed ?s' ?res"
    by (rule wellFormed_upgraded)
  have fresh: "list_all (\<lambda>r. length (objects s) \<le> r) (arrays ?s' ! ?res)"
    by (simp add: list_all_iff)
  have items: "itemsOf ?s' ?res = map plus5 (itemsOf s arr)"
    by (rule upgraded_items [OF assms])
  have len: "length (itemsOf ?s' ?res) = length (itemsOf s arr)"
    by (simp add: items)
  have names: "map name (itemsOf ?s' ?res) = map name (itemsOf s arr)"
    unfolding items by (simp add: plus5_def comp_def)
  have flags: "map broken (itemsOf ?s' ?res) = map broken (itemsOf s arr)"
    unfolding items by (simp add: plus5_def comp_def)
  have exact: "itemsOf ?s' ?res = map (\<lambda>it. it\<lparr>power_val := power_val it + 5\<rparr>) (itemsOf s arr)"
    if "list_all (\<lambda>it. - (2 ^ 53) \<le> power_val it \<and> power_val it + 5 \<le> 2 ^ 53) (itemsOf s arr)"
  proof -
    have "itemsOf ?s' ?res =
        map (\<lambda>it. it\<lparr>power_val := numberAdd (power_val it) 5\<rparr>) (itemsOf s arr)"
      unfolding items plus5_spread ..
    also have "\<dots> = map (\<lambda>it. it\<lparr>power_val := power_val it + 5\<rparr>) (itemsOf s arr)"
      using that by (rule upgrade_exact)
    finally show ?thesis .
  qed
  have kept: "itemsOf ?s' arr = itemsOf s arr"
    by (rule itemsOf_kept [OF assms])
  have pre: "prefix (objects s) (objects ?s')" "prefix (arrays s) (arrays ?s')"
    by simp_all
  show ?thesis
  proof (rule exI [of _ ?res], rule exI [of _ ?s'], intro conjI impI)
    show "?res \<le> ?res" by simp
  qed (fact run concise wf fresh len names flags kept pre | erule exact)+
qed

text \<open>
  On the script's inventory, whose powers are within the range: 10, 5, 8, 12 become
  15, 10, 13, 17.
\<close>

theorem upgrade_adds_five_witness:
  "wellFormed scriptStore scriptInventory
   \<and> list_all (\<lambda>it. - (2 ^ 53) \<le> power_val it \<and> power_val it + 5 \<le> 2 ^ 53)
        (itemsOf scriptStore scriptInventory)
   \<and> (\<exists>res s'. upgradedInventoryMap scriptStore scriptInventory = Inr (res, s')
      \<and> upgradedInventoryConcise scriptStore scriptInventory = Inr (res, s')
      \<and> itemsOf s' res =
        [\<lparr>name = ''Sword'', power_val = 15, broken = False\<rparr>,
         \<lparr>name = ''Shield'', power_val = 10, broken = False\<rparr>,
         \<lparr>name = ''Bow'', power_val = 13, broken = True\<rparr>,
         \<lparr>name = ''Axe'', power_val = 17, broken = False\<rparr>]
      \<and> itemsOf s' scriptInventory =
        [\<lparr>name = ''Sword'', power_val = 10, broken = False\<rparr>,
         \<lparr>name = ''Shield'', power_val = 5, broken = False\<rparr>,
         \<lparr>name = ''Bow'', power_val = 8, broken = True\<rparr>,
         \<lparr>name = ''Axe'', power_val = 12, broken = False\<rparr>])"
proof -
  have range: "list_all (\<lambda>it. - (2 ^ 53) \<le> power_val it \<and> power_val it + 5 \<le> 2 ^ 53)
        (itemsOf scriptStore scriptInventory)"
    by (simp add: itemsOf_script)
  from upgrade_adds_five [OF wellFormed_script] range
  obtain res s' where
    "upgradedInventoryMap scriptStore scriptInventory = Inr (res, s')"
    "upgradedInventoryConcise scriptStore scriptInventory = Inr (res, s')"
    "itemsOf s' res =
       map (\<lambda>it. it\<lparr>power_val := power_val it + 5\<rparr>) (itemsOf scriptStore scriptInventory)"
    "itemsOf s' scriptInventory = itemsOf scriptStore scriptInventory"
    by blast
  then have "\<exists>res s'. upgradedInventoryMap scriptStore scriptInventory = Inr (res, s')
      \<and> upgradedInventoryConcise scriptStore scriptInventory = Inr (res, s')
      \<and> itemsOf s' res =
        [\<lparr>name = ''Sword'', power_val = 15, broken = False\<rparr>,
         \<lparr>name = ''Shield'', power_val = 10, broken = False\<rparr>,
         \<lparr>name = ''Bow'', power_val = 13, broken = True\<rparr>,
         \<lparr>name = ''Axe'', power_val = 17, broken = False\<rparr>]
      \<and> itemsOf s' scriptInventory =
        [\<lparr>name = ''Sword'', power_val = 10, broken = False\<rparr>,
         \<lparr>name = ''Shield'', power_val = 5, broken = False\<rparr>,
         \<lparr>name = ''Bow'', power_val = 8, broken = True\<rparr>,
         \<lparr>name = ''Axe'', power_val = 12, broken = False\<rparr>]"
    by (simp add: itemsOf_script)
  with wellFormed_script range show ?thesis
    by (intro conjI)
qed

text \<open>
  C1 as stated fails twice. At delta 0 on the script's inventory the result would have
  to carry the input's powers \<open>10 + 0\<close>, \<open>5 + 0\<close>, \<open>8 + 0\<close>, \<open>12 + 0\<close>, and the code
  returns the powers 15, 10, 13, 17. And at the code's own increment 5 on the single item
  of power \<open>2^53 - 2 = 9007199254740990\<close>, a safe integer, the result would have to
  carry \<open>9007199254740995\<close>, which is no double: the code returns \<open>9007199254740996\<close>.
\<close>

theorem upgrade_delta_counterexample:
  "resultItems (upgradedInventoryMap scriptStore scriptInventory) =
     Inr [\<lparr>name = ''Sword'', power_val = 15, broken = False\<rparr>,
          \<lparr>name = ''Shield'', power_val = 10, broken = False\<rparr>,
          \<lparr>name = ''Bow'', power_val = 13, broken = True\<rparr>,
          \<lparr>name = ''Axe'', power_val = 17, broken = False\<rparr>]
   \<and> resultItems (upgradedInventoryMap scriptStore scriptInventory) \<noteq>
     Inr [\<lparr>name = ''Sword'', power_val = 10 + 0, broken = False\<rparr>,
          \<lparr>name = ''Shield'', power_val = 5 + 0, broken = False\<rparr>,
          \<lparr>name = ''Bow'', power_val = 8 + 0, broken = True\<rparr>,
          \<lparr>name = ''Axe'', power_val = 12 + 0, broken = False\<rparr>]
   \<and> itemsOf largeStore 3 =
     [\<lparr>name = ''Dagger'', power_val = 9007199254740990, broken = False\<rparr>]
   \<and> resultItems (upgradedInventoryMap largeStore 3) =
     Inr [\<lparr>name = ''Dagger'', power_val = 9007199254740996, broken = False\<rparr>]
   \<and> resultItems (upgradedInventoryMap largeStore 3) \<noteq>
     Inr [\<lparr>name = ''Dagger'', power_val = 9007199254740990 + 5, broken = False\<rparr>]"
  by (simp add: resultItems_def upgradedInventoryMap_def arrayMap_def getArray_def
      upgradeFields_def getItem_def newItem_def newArray_def itemsOf_def
      scriptStore_eq scriptInventory_eq largeStore_def
      numberAdd_def roundToDouble_def Let_def ulpOf_large ulpOf_small)

subsection \<open>Filtering\<close>

text \<open>
  Claim C2: for every well-formed inventory, \<open>usableInventory\<close> returns a new array
  holding exactly the elements of the input whose \<^verbatim>\<open>broken\<close> is false, the very same
  objects, in their original order; it is a subsequence of the input, never longer. The
  call allocates no object and changes no existing array, so the input reads the same
  afterwards.
\<close>

theorem usableInventory_keeps_unbroken:
  assumes "wellFormed s arr"
  shows "\<exists>res s'. usableInventory s arr = Inr (res, s')
      \<and> length (arrays s) \<le> res \<and> wellFormed s' res
      \<and> arrays s' ! res = filter (\<lambda>r. \<not> broken (objects s ! r)) (arrays s ! arr)
      \<and> subseq (arrays s' ! res) (arrays s ! arr)
      \<and> itemsOf s' res = filter (\<lambda>it. broken it = False) (itemsOf s arr)
      \<and> length (itemsOf s' res) \<le> length (itemsOf s arr)
      \<and> objects s' = objects s \<and> prefix (arrays s) (arrays s')
      \<and> itemsOf s' arr = itemsOf s arr"
proof -
  let ?kept = "filter (\<lambda>r. \<not> broken (objects s ! r)) (arrays s ! arr)"
  let ?s' = "s\<lparr>arrays := arrays s @ [?kept]\<rparr>"
  have run: "usableInventory s arr = Inr (length (arrays s), ?s')"
    by (simp add: usableInventory_def notBroken_eq arrayFilter_notBroken [OF assms])
  have wf: "wellFormed ?s' (length (arrays s))"
    by (rule wellFormed_filtered [OF assms])
  have elems: "arrays ?s' ! length (arrays s) = ?kept"
    by simp
  have sub: "subseq (arrays ?s' ! length (arrays s)) (arrays s ! arr)"
    by simp
  have items: "itemsOf ?s' (length (arrays s)) = filter (\<lambda>it. broken it = False) (itemsOf s arr)"
    by (rule itemsOf_filtered)
  have len: "length (itemsOf ?s' (length (arrays s))) \<le> length (itemsOf s arr)"
    unfolding items by (rule length_filter_le)
  have kept: "itemsOf ?s' arr = itemsOf s arr"
    by (rule itemsOf_kept_arrays [OF assms])
  have same: "objects ?s' = objects s" "prefix (arrays s) (arrays ?s')"
    by simp_all
  from run wf elems sub items len kept same show ?thesis
    by blast
qed

text \<open>
  On the script's inventory the result is shorter than the input: Sword, Shield and Axe,
  the elements 0, 1 and 3. On the array holding the broken Bow alone it is empty.
\<close>

theorem usableInventory_keeps_unbroken_witness:
  "wellFormed scriptStore scriptInventory \<and>
   (\<exists>res s'. usableInventory scriptStore scriptInventory = Inr (res, s')
      \<and> itemsOf s' res =
        [\<lparr>name = ''Sword'', power_val = 10, broken = False\<rparr>,
         \<lparr>name = ''Shield'', power_val = 5, broken = False\<rparr>,
         \<lparr>name = ''Axe'', power_val = 12, broken = False\<rparr>]
      \<and> arrays s' ! res = [0, 1, 3]
      \<and> itemsOf s' scriptInventory =
        [\<lparr>name = ''Sword'', power_val = 10, broken = False\<rparr>,
         \<lparr>name = ''Shield'', power_val = 5, broken = False\<rparr>,
         \<lparr>name = ''Bow'', power_val = 8, broken = True\<rparr>,
         \<lparr>name = ''Axe'', power_val = 12, broken = False\<rparr>])
   \<and> wellFormed splitStore 4
   \<and> itemsOf splitStore 4 = [\<lparr>name = ''Bow'', power_val = 8, broken = True\<rparr>]
   \<and> (\<exists>res s'. usableInventory splitStore 4 = Inr (res, s') \<and> itemsOf s' res = [])"
proof -
  from usableInventory_keeps_unbroken [OF wellFormed_script]
  obtain res s' where
    "usableInventory scriptStore scriptInventory = Inr (res, s')"
    "itemsOf s' res = filter (\<lambda>it. broken it = False) (itemsOf scriptStore scriptInventory)"
    "arrays s' ! res =
       filter (\<lambda>r. \<not> broken (objects scriptStore ! r)) (arrays scriptStore ! scriptInventory)"
    "itemsOf s' scriptInventory = itemsOf scriptStore scriptInventory"
    by blast
  then have script: "\<exists>res s'. usableInventory scriptStore scriptInventory = Inr (res, s')
      \<and> itemsOf s' res =
        [\<lparr>name = ''Sword'', power_val = 10, broken = False\<rparr>,
         \<lparr>name = ''Shield'', power_val = 5, broken = False\<rparr>,
         \<lparr>name = ''Axe'', power_val = 12, broken = False\<rparr>]
      \<and> arrays s' ! res = [0, 1, 3]
      \<and> itemsOf s' scriptInventory =
        [\<lparr>name = ''Sword'', power_val = 10, broken = False\<rparr>,
         \<lparr>name = ''Shield'', power_val = 5, broken = False\<rparr>,
         \<lparr>name = ''Bow'', power_val = 8, broken = True\<rparr>,
         \<lparr>name = ''Axe'', power_val = 12, broken = False\<rparr>]"
    by (simp add: itemsOf_script) (simp add: scriptStore_eq scriptInventory_eq)
  have wf: "wellFormed splitStore 4"
    by (simp add: wellFormed_def splitStore_def)
  have bow: "itemsOf splitStore 4 = [\<lparr>name = ''Bow'', power_val = 8, broken = True\<rparr>]"
    by (simp add: itemsOf_def splitStore_def)
  from usableInventory_keeps_unbroken [OF wf]
  obtain res s' where
    "usableInventory splitStore 4 = Inr (res, s')"
    "itemsOf s' res = filter (\<lambda>it. broken it = False) (itemsOf splitStore 4)"
    by blast
  then have empty: "\<exists>res s'. usableInventory splitStore 4 = Inr (res, s') \<and> itemsOf s' res = []"
    by (simp add: bow)
  from wellFormed_script script wf bow empty show ?thesis
    by (intro conjI)
qed

subsection \<open>Upgrading, then filtering\<close>

text \<open>
  Claim C3, amended: the increment is the constant 5 on both sides (the code has no
  delta), and the sum is a number's. For every store and array,
  \<open>upgradeAndFilterInventory\<close> is exactly \<open>usableInventory\<close> run on the result of
  \<open>upgradedInventoryMap\<close>, exceptions included. On a well-formed inventory it returns a
  new array whose items carry the \<^verbatim>\<open>name\<close> and \<^verbatim>\<open>broken\<close> of the input's items with
  \<^verbatim>\<open>broken\<close> false, in order; when every power of the input lies between \<open>-2^53\<close>
  and \<open>2^53 - 5\<close>, where the addition is exact, they are those items with \<^verbatim>\<open>power\<close>
  increased by 5. Nothing existing is changed.
\<close>

theorem upgradeAndFilter_is_composition:
  "upgradeAndFilterInventory s arr =
     (case upgradedInventoryMap s arr of
        Inl e \<Rightarrow> Inl e
      | Inr (upgraded, s') \<Rightarrow> usableInventory s' upgraded)
   \<and> (wellFormed s arr \<longrightarrow>
        (\<exists>res s'. upgradeAndFilterInventory s arr = Inr (res, s')
           \<and> length (arrays s) \<le> res \<and> wellFormed s' res
           \<and> map name (itemsOf s' res) =
               map name (filter (\<lambda>it. broken it = False) (itemsOf s arr))
           \<and> map broken (itemsOf s' res) =
               map broken (filter (\<lambda>it. broken it = False) (itemsOf s arr))
           \<and> (list_all (\<lambda>it. - (2 ^ 53) \<le> power_val it \<and> power_val it + 5 \<le> 2 ^ 53)
                 (itemsOf s arr)
                \<longrightarrow> itemsOf s' res =
                      filter (\<lambda>it. broken it = False)
                        (map (\<lambda>it. it\<lparr>power_val := power_val it + 5\<rparr>) (itemsOf s arr)))
           \<and> prefix (objects s) (objects s') \<and> prefix (arrays s) (arrays s')
           \<and> itemsOf s' arr = itemsOf s arr))"
proof (rule conjI, goal_cases)
  case 1
  show ?case
    unfolding upgradeAndFilterInventory_def upgradedInventoryMap_def usableInventory_def
      upgradeSpread_eq notBroken_eq ..
next
  case 2
  show ?case
  proof (rule impI)
    assume wf: "wellFormed s arr"
    let ?n = "length (arrays s)"
    let ?s1 = "s\<lparr>objects := objects s @ map (\<lambda>r. plus5 (objects s ! r)) (arrays s ! arr),
              arrays := arrays s @
                [[length (objects s) ..< length (objects s) + length (arrays s ! arr)]]\<rparr>"
    let ?s2 = "?s1\<lparr>arrays := arrays ?s1 @
        [filter (\<lambda>r. \<not> broken (objects ?s1 ! r)) (arrays ?s1 ! ?n)]\<rparr>"
    have wf1: "wellFormed ?s1 ?n"
      by (rule wellFormed_upgraded)
    have len1: "length (arrays ?s1) = Suc ?n"
      by simp
    have run: "upgradeAndFilterInventory s arr = Inr (Suc ?n, ?s2)"
      unfolding upgradeAndFilterInventory_def upgradeSpread_eq arrayMap_upgrade [OF wf]
        sum.case prod.case arrayFilter_notBroken [OF wf1] len1 ..
    have wf2: "wellFormed ?s2 (Suc ?n)"
      using wellFormed_filtered [OF wf1] unfolding len1 .
    have "itemsOf ?s2 (Suc ?n) = filter (\<lambda>it. broken it = False) (itemsOf ?s1 ?n)"
      using itemsOf_filtered [of ?s1 ?n] unfolding len1 .
    also have "itemsOf ?s1 ?n =
        map (\<lambda>it. it\<lparr>power_val := numberAdd (power_val it) 5\<rparr>) (itemsOf s arr)"
      unfolding upgraded_items [OF wf] plus5_spread ..
    finally have items: "itemsOf ?s2 (Suc ?n) =
        filter (\<lambda>it. broken it = False)
          (map (\<lambda>it. it\<lparr>power_val := numberAdd (power_val it) 5\<rparr>) (itemsOf s arr))" .
    have names: "map name (itemsOf ?s2 (Suc ?n)) =
        map name (filter (\<lambda>it. broken it = False) (itemsOf s arr))"
      unfolding items filter_upgraded by (simp add: comp_def)
    have flags: "map broken (itemsOf ?s2 (Suc ?n)) =
        map broken (filter (\<lambda>it. broken it = False) (itemsOf s arr))"
      unfolding items filter_upgraded by (simp add: comp_def)
    have exact: "itemsOf ?s2 (Suc ?n) =
        filter (\<lambda>it. broken it = False)
          (map (\<lambda>it. it\<lparr>power_val := power_val it + 5\<rparr>) (itemsOf s arr))"
      if "list_all (\<lambda>it. - (2 ^ 53) \<le> power_val it \<and> power_val it + 5 \<le> 2 ^ 53) (itemsOf s arr)"
      unfolding items upgrade_exact [OF that] ..
    have kept: "itemsOf ?s2 arr = itemsOf s arr"
      using wf by (simp add: wellFormed_def itemsOf_def nth_append list_all_iff)
    have pre: "prefix (objects s) (objects ?s2)" "prefix (arrays s) (arrays ?s2)"
      by (simp_all add: prefix_def)
    show "\<exists>res s'. upgradeAndFilterInventory s arr = Inr (res, s')
           \<and> length (arrays s) \<le> res \<and> wellFormed s' res
           \<and> map name (itemsOf s' res) =
               map name (filter (\<lambda>it. broken it = False) (itemsOf s arr))
           \<and> map broken (itemsOf s' res) =
               map broken (filter (\<lambda>it. broken it = False) (itemsOf s arr))
           \<and> (list_all (\<lambda>it. - (2 ^ 53) \<le> power_val it \<and> power_val it + 5 \<le> 2 ^ 53)
                 (itemsOf s arr)
                \<longrightarrow> itemsOf s' res =
                      filter (\<lambda>it. broken it = False)
                        (map (\<lambda>it. it\<lparr>power_val := power_val it + 5\<rparr>) (itemsOf s arr)))
           \<and> prefix (objects s) (objects s') \<and> prefix (arrays s) (arrays s')
           \<and> itemsOf s' arr = itemsOf s arr"
    proof (rule exI [of _ "Suc ?n"], rule exI [of _ ?s2], intro conjI impI)
      show "?n \<le> Suc ?n" by simp
    qed (fact run wf2 names flags kept pre | erule exact)+
  qed
qed

text \<open>
  On the script's inventory, whose powers are within the range: Sword 15, Shield 10,
  Axe 17; the Bow is left out.
\<close>

theorem upgradeAndFilter_is_composition_witness:
  "wellFormed scriptStore scriptInventory
   \<and> list_all (\<lambda>it. - (2 ^ 53) \<le> power_val it \<and> power_val it + 5 \<le> 2 ^ 53)
        (itemsOf scriptStore scriptInventory)
   \<and> (\<exists>res s'. upgradeAndFilterInventory scriptStore scriptInventory = Inr (res, s')
      \<and> itemsOf s' res =
        [\<lparr>name = ''Sword'', power_val = 15, broken = False\<rparr>,
         \<lparr>name = ''Shield'', power_val = 10, broken = False\<rparr>,
         \<lparr>name = ''Axe'', power_val = 17, broken = False\<rparr>])"
proof -
  have range: "list_all (\<lambda>it. - (2 ^ 53) \<le> power_val it \<and> power_val it + 5 \<le> 2 ^ 53)
        (itemsOf scriptStore scriptInventory)"
    by (simp add: itemsOf_script)
  from upgradeAndFilter_is_composition [of scriptStore scriptInventory] wellFormed_script range
  obtain res s' where
    "upgradeAndFilterInventory scriptStore scriptInventory = Inr (res, s')"
    "itemsOf s' res =
       filter (\<lambda>it. broken it = False)
         (map (\<lambda>it. it\<lparr>power_val := power_val it + 5\<rparr>) (itemsOf scriptStore scriptInventory))"
    by blast
  then have "\<exists>res s'. upgradeAndFilterInventory scriptStore scriptInventory = Inr (res, s')
      \<and> itemsOf s' res =
        [\<lparr>name = ''Sword'', power_val = 15, broken = False\<rparr>,
         \<lparr>name = ''Shield'', power_val = 10, broken = False\<rparr>,
         \<lparr>name = ''Axe'', power_val = 17, broken = False\<rparr>]"
    by (simp add: itemsOf_script)
  with wellFormed_script range show ?thesis
    by (intro conjI)
qed

text \<open>
  C3 as stated fails twice. At delta 0, where upgrading changes no power, the combined
  operation would have to return what filtering alone returns on the script's inventory,
  Sword 10, Shield 5, Axe 12, and the code returns Sword 15, Shield 10, Axe 17. And at
  the code's own increment 5 on the single unbroken item of power
  \<open>2^53 - 2 = 9007199254740990\<close>, a safe integer, the result would have to carry
  \<open>9007199254740995\<close>, which is no double: the code returns \<open>9007199254740996\<close>.
\<close>

theorem upgradeAndFilter_delta_counterexample:
  "resultItems (usableInventory scriptStore scriptInventory) =
     Inr [\<lparr>name = ''Sword'', power_val = 10 + 0, broken = False\<rparr>,
          \<lparr>name = ''Shield'', power_val = 5 + 0, broken = False\<rparr>,
          \<lparr>name = ''Axe'', power_val = 12 + 0, broken = False\<rparr>]
   \<and> resultItems (upgradeAndFilterInventory scriptStore scriptInventory) =
     Inr [\<lparr>name = ''Sword'', power_val = 15, broken = False\<rparr>,
          \<lparr>name = ''Shield'', power_val = 10, broken = False\<rparr>,
          \<lparr>name = ''Axe'', power_val = 17, broken = False\<rparr>]
   \<and> resultItems (upgradeAndFilterInventory scriptStore scriptInventory) \<noteq>
     Inr [\<lparr>name = ''Sword'', power_val = 10 + 0, broken = False\<rparr>,
          \<lparr>name = ''Shield'', power_val = 5 + 0, broken = False\<rparr>,
          \<lparr>name = ''Axe'', power_val = 12 + 0, broken = False\<rparr>]
   \<and> itemsOf largeStore 3 =
     [\<lparr>name = ''Dagger'', power_val = 9007199254740990, broken = False\<rparr>]
   \<and> resultItems (upgradeAndFilterInventory largeStore 3) =
     Inr [\<lparr>name = ''Dagger'', power_val = 9007199254740996, broken = False\<rparr>]
   \<and> resultItems (upgradeAndFilterInventory largeStore 3) \<noteq>
     Inr [\<lparr>name = ''Dagger'', power_val = 9007199254740990 + 5, broken = False\<rparr>]"
  by (simp add: resultItems_def upgradeAndFilterInventory_def usableInventory_def arrayMap_def
      arrayFilter_def getArray_def getItem_def newItem_def newArray_def upgradeSpread_def
      notBroken_def brokenIsFalse_def itemsOf_def scriptStore_eq scriptInventory_eq
      largeStore_def numberAdd_def roundToDouble_def Let_def ulpOf_large ulpOf_small)

subsection \<open>The total\<close>

text \<open>
  Claim C4, amended: on a well-formed inventory the magnitudes of whose powers sum to
  at most \<open>2^53\<close>, where every addition of the fold is exact, \<open>totalPower\<close> is the
  sum of the \<^verbatim>\<open>power\<close> fields. On an empty array it is 0. When the items of one array
  are those of a second followed by those of a third, and the magnitudes of its powers
  sum to at most \<open>2^53\<close>, its total is the sum of the two totals. The script's
  inventory has the total 35.
\<close>

theorem totalPower_sum_additive:
  "(wellFormed s arr
        \<and> sum_list (map (\<lambda>it. \<bar>power_val it\<bar>) (itemsOf s arr)) \<le> 2 ^ 53 \<longrightarrow>
      totalPower s arr = Inr (sum_list (map power_val (itemsOf s arr))))
   \<and> (getArray s arr = Inr [] \<longrightarrow> totalPower s arr = Inr 0)
   \<and> (wellFormed s a \<and> wellFormed s b \<and> wellFormed s c
        \<and> itemsOf s c = itemsOf s a @ itemsOf s b
        \<and> sum_list (map (\<lambda>it. \<bar>power_val it\<bar>) (itemsOf s c)) \<le> 2 ^ 53 \<longrightarrow>
       (\<exists>m n. totalPower s a = Inr m \<and> totalPower s b = Inr n
          \<and> totalPower s c = Inr (m + n)))
   \<and> totalPower scriptStore scriptInventory = Inr 35"
proof (intro conjI impI)
  assume "wellFormed s arr
        \<and> sum_list (map (\<lambda>it. \<bar>power_val it\<bar>) (itemsOf s arr)) \<le> 2 ^ 53"
  then show "totalPower s arr = Inr (sum_list (map power_val (itemsOf s arr)))"
    by (simp add: totalPower_sum_list)
next
  assume "getArray s arr = Inr []"
  then show "totalPower s arr = Inr 0"
    by (simp add: totalPower_def arrayReduce_def)
next
  let ?mag = "\<lambda>xs. sum_list (map (\<lambda>it. \<bar>power_val it\<bar>) xs)"
  assume asm: "wellFormed s a \<and> wellFormed s b \<and> wellFormed s c
        \<and> itemsOf s c = itemsOf s a @ itemsOf s b
        \<and> sum_list (map (\<lambda>it. \<bar>power_val it\<bar>) (itemsOf s c)) \<le> 2 ^ 53"
  then have cat: "itemsOf s c = itemsOf s a @ itemsOf s b"
    and whole: "?mag (itemsOf s c) \<le> 2 ^ 53"
    by blast+
  have nonneg: "0 \<le> ?mag xs" for xs
    by (rule sum_list_nonneg) auto
  have "?mag (itemsOf s a) + ?mag (itemsOf s b) \<le> 2 ^ 53"
    using whole unfolding cat by simp
  with nonneg [of "itemsOf s a"] nonneg [of "itemsOf s b"]
  have left: "?mag (itemsOf s a) \<le> 2 ^ 53" and right: "?mag (itemsOf s b) \<le> 2 ^ 53"
    by linarith+
  from asm left have ta: "totalPower s a = Inr (sum_list (map power_val (itemsOf s a)))"
    by (simp add: totalPower_sum_list)
  from asm right have tb: "totalPower s b = Inr (sum_list (map power_val (itemsOf s b)))"
    by (simp add: totalPower_sum_list)
  from asm whole have "totalPower s c = Inr (sum_list (map power_val (itemsOf s c)))"
    by (simp add: totalPower_sum_list)
  then have tc: "totalPower s c =
      Inr (sum_list (map power_val (itemsOf s a)) + sum_list (map power_val (itemsOf s b)))"
    unfolding cat by simp
  from ta tb tc show "\<exists>m n. totalPower s a = Inr m \<and> totalPower s b = Inr n
          \<and> totalPower s c = Inr (m + n)"
    by blast
next
  have "sum_list (map (\<lambda>it. \<bar>power_val it\<bar>) (itemsOf scriptStore scriptInventory)) \<le> 2 ^ 53"
    by (simp add: itemsOf_script)
  then show "totalPower scriptStore scriptInventory = Inr 35"
    by (simp add: totalPower_sum_list [OF wellFormed_script] itemsOf_script)
qed

text \<open>
  \<open>[Sword, Shield]\<close> has 15, \<open>[Bow, Axe]\<close> has 20, their concatenation 35, whose
  magnitudes stay far below \<open>2^53\<close>.
\<close>

theorem totalPower_sum_additive_witness:
  "wellFormed splitStore 0 \<and> wellFormed splitStore 1 \<and> wellFormed splitStore 2
   \<and> itemsOf splitStore 2 = itemsOf splitStore 0 @ itemsOf splitStore 1
   \<and> sum_list (map (\<lambda>it. \<bar>power_val it\<bar>) (itemsOf splitStore 2)) \<le> 2 ^ 53
   \<and> totalPower splitStore 0 = Inr 15 \<and> totalPower splitStore 1 = Inr 20
   \<and> totalPower splitStore 2 = Inr (15 + 20)
   \<and> getArray splitStore 3 = Inr [] \<and> totalPower splitStore 3 = Inr 0"
proof -
  have wf: "wellFormed splitStore 0" "wellFormed splitStore 1" "wellFormed splitStore 2"
    by (simp_all add: wellFormed_def splitStore_def)
  have items: "itemsOf splitStore 0 =
      [\<lparr>name = ''Sword'', power_val = 10, broken = False\<rparr>,
       \<lparr>name = ''Shield'', power_val = 5, broken = False\<rparr>]"
    "itemsOf splitStore 1 =
      [\<lparr>name = ''Bow'', power_val = 8, broken = True\<rparr>,
       \<lparr>name = ''Axe'', power_val = 12, broken = False\<rparr>]"
    "itemsOf splitStore 2 =
      [\<lparr>name = ''Sword'', power_val = 10, broken = False\<rparr>,
       \<lparr>name = ''Shield'', power_val = 5, broken = False\<rparr>,
       \<lparr>name = ''Bow'', power_val = 8, broken = True\<rparr>,
       \<lparr>name = ''Axe'', power_val = 12, broken = False\<rparr>]"
    by (simp_all add: itemsOf_def splitStore_def)
  have cat: "itemsOf splitStore 2 = itemsOf splitStore 0 @ itemsOf splitStore 1"
    unfolding items by simp
  have mag: "sum_list (map (\<lambda>it. \<bar>power_val it\<bar>) (itemsOf splitStore 0)) \<le> 2 ^ 53"
    "sum_list (map (\<lambda>it. \<bar>power_val it\<bar>) (itemsOf splitStore 1)) \<le> 2 ^ 53"
    "sum_list (map (\<lambda>it. \<bar>power_val it\<bar>) (itemsOf splitStore 2)) \<le> 2 ^ 53"
    unfolding items by simp_all
  have empty: "getArray splitStore 3 = Inr []"
    by (simp add: getArray_def splitStore_def)
  from totalPower_sum_additive [of splitStore 0 0 1 2] wf(1) mag(1)
  have "totalPower splitStore 0 = Inr (sum_list (map power_val (itemsOf splitStore 0)))"
    by blast
  then have t0: "totalPower splitStore 0 = Inr 15"
    unfolding items by simp
  from totalPower_sum_additive [of splitStore 1 0 1 2] wf(2) mag(2)
  have "totalPower splitStore 1 = Inr (sum_list (map power_val (itemsOf splitStore 1)))"
    by blast
  then have t1: "totalPower splitStore 1 = Inr 20"
    unfolding items by simp
  from totalPower_sum_additive [of splitStore 3 0 1 2] wf cat mag(3)
  have "\<exists>m n. totalPower splitStore 0 = Inr m \<and> totalPower splitStore 1 = Inr n
          \<and> totalPower splitStore 2 = Inr (m + n)"
    by blast
  with t0 t1 have t2: "totalPower splitStore 2 = Inr (15 + 20)"
    by auto
  from totalPower_sum_additive [of splitStore 3] empty
  have t3: "totalPower splitStore 3 = Inr 0"
    by blast
  from wf cat mag(3) t0 t1 t2 empty t3 show ?thesis
    by (intro conjI)
qed

text \<open>
  C4 as stated fails on safe integers. With \<open>S\<close> the items of power
  \<open>2^53 - 1 = 9007199254740991\<close> and 1, and \<open>T\<close> two items of power 1, the total of
  \<open>S\<close> is \<open>9007199254740992\<close> and the total of \<open>T\<close> is 2, but the total of their
  concatenation is \<open>9007199254740992\<close> again: from \<open>2^53\<close> on, adding 1 gives an odd
  integer, which is no double and is rounded back. So the total of \<open>S ++ T\<close> is neither
  the sum of its power fields, \<open>9007199254740994\<close>, nor the sum of the two totals.
\<close>

theorem totalPower_rounding_counterexample:
  "itemsOf largeStore 2 = itemsOf largeStore 0 @ itemsOf largeStore 1
   \<and> map power_val (itemsOf largeStore 0) = [9007199254740991, 1]
   \<and> map power_val (itemsOf largeStore 1) = [1, 1]
   \<and> totalPower largeStore 0 = Inr 9007199254740992
   \<and> totalPower largeStore 1 = Inr 2
   \<and> totalPower largeStore 2 = Inr 9007199254740992
   \<and> totalPower largeStore 2 \<noteq> Inr (9007199254740992 + 2)
   \<and> sum_list (map power_val (itemsOf largeStore 2)) = 9007199254740994
   \<and> totalPower largeStore 2 \<noteq> Inr (sum_list (map power_val (itemsOf largeStore 2)))"
  by (simp add: totalPower_def arrayReduce_def getArray_def addPower_def getItem_def
      itemsOf_def largeStore_def numberAdd_def roundToDouble_def Let_def
      ulpOf_large ulpOf_small)

subsection \<open>No exception on well-formed input\<close>

text \<open>
  Claim C5: on a well-formed inventory every statement returns a value and none throws:
  the two upgrades, the two filters, their combination, \<open>powerfulItem\<close>,
  \<open>brokenItemIndex\<close>, \<open>hasBrokenItems\<close>, \<open>allPowerful\<close> and \<open>totalPower\<close>. When
  no item qualifies, \<open>powerfulItem\<close> returns \<^verbatim>\<open>undefined\<close> (\<open>None\<close>) and
  \<open>brokenItemIndex\<close> returns \<open>-1\<close>, as ordinary results.
\<close>

theorem operations_total:
  assumes "wellFormed s arr"
  shows "(\<exists>res s'. upgradedInventoryMap s arr = Inr (res, s'))
    \<and> (\<exists>res s'. upgradedInventoryConcise s arr = Inr (res, s'))
    \<and> (\<exists>res s'. usableInventory s arr = Inr (res, s'))
    \<and> (\<exists>res s'. usableInventoryAlt s arr = Inr (res, s'))
    \<and> (\<exists>res s'. upgradeAndFilterInventory s arr = Inr (res, s'))
    \<and> (\<exists>found. powerfulItem s arr = Inr found)
    \<and> (\<exists>k. brokenItemIndex s arr = Inr k)
    \<and> (\<exists>b. hasBrokenItems s arr = Inr b)
    \<and> (\<exists>b. allPowerful s arr = Inr b)
    \<and> (\<exists>n. totalPower s arr = Inr n)
    \<and> ((\<forall>it \<in> set (itemsOf s arr). \<not> 10 < power_val it) \<longrightarrow> powerfulItem s arr = Inr None)
    \<and> ((\<forall>it \<in> set (itemsOf s arr). \<not> broken it) \<longrightarrow> brokenItemIndex s arr = Inr (- 1))"
proof -
  have up: "\<exists>res s'. upgradedInventoryMap s arr = Inr (res, s')"
    by (simp add: upgradedInventoryMap_def arrayMap_upgrade [OF assms])
  have concise: "\<exists>res s'. upgradedInventoryConcise s arr = Inr (res, s')"
    by (simp add: upgradedInventoryConcise_def upgradeSpread_eq arrayMap_upgrade [OF assms])
  have usable: "\<exists>res s'. usableInventory s arr = Inr (res, s')"
    by (simp add: usableInventory_def notBroken_eq arrayFilter_notBroken [OF assms])
  have alt: "\<exists>res s'. usableInventoryAlt s arr = Inr (res, s')"
    by (simp add: usableInventoryAlt_def arrayFilter_notBroken [OF assms])
  have both: "\<exists>res s'. upgradeAndFilterInventory s arr = Inr (res, s')"
    unfolding upgradeAndFilterInventory_def upgradeSpread_eq arrayMap_upgrade [OF assms]
      sum.case prod.case arrayFilter_notBroken [OF wellFormed_upgraded]
    by simp
  have found: "\<exists>found. powerfulItem s arr = Inr found"
    by (simp add: powerfulItem_find [OF assms])
  have index: "\<exists>k. brokenItemIndex s arr = Inr k"
    by (simp add: brokenItemIndex_takeWhile [OF assms])
  have some: "\<exists>b. hasBrokenItems s arr = Inr b"
    by (simp add: hasBrokenItems_exists [OF assms])
  have every: "\<exists>b. allPowerful s arr = Inr b"
    by (simp add: allPowerful_forall [OF assms])
  have total: "\<exists>n. totalPower s arr = Inr n"
    by (simp add: totalPower_foldl [OF assms])
  have absent: "(\<forall>it \<in> set (itemsOf s arr). \<not> 10 < power_val it) \<longrightarrow> powerfulItem s arr = Inr None"
    by (simp add: powerfulItem_find [OF assms] find_None_iff itemsOf_def)
  have minus_one: "(\<forall>it \<in> set (itemsOf s arr). \<not> broken it) \<longrightarrow> brokenItemIndex s arr = Inr (- 1)"
    by (simp add: brokenItemIndex_takeWhile [OF assms] itemsOf_def)
  from up concise usable alt both found index some every total absent minus_one
  show ?thesis by blast
qed

text \<open>A single unbroken Shield of power 5: nothing is found, nothing throws.\<close>

theorem operations_total_witness:
  "wellFormed shieldStore 0
   \<and> itemsOf shieldStore 0 = [\<lparr>name = ''Shield'', power_val = 5, broken = False\<rparr>]
   \<and> powerfulItem shieldStore 0 = Inr None
   \<and> brokenItemIndex shieldStore 0 = Inr (- 1)
   \<and> (\<exists>res s'. upgradeAndFilterInventory shieldStore 0 = Inr (res, s'))
   \<and> (\<exists>n. totalPower shieldStore 0 = Inr n)"
proof -
  have wf: "wellFormed shieldStore 0"
    by (simp add: wellFormed_def shieldStore_def)
  have items: "itemsOf shieldStore 0 = [\<lparr>name = ''Shield'', power_val = 5, broken = False\<rparr>]"
    by (simp add: itemsOf_def shieldStore_def)
  from operations_total [OF wf] show ?thesis
    using wf by (simp add: items)
qed

subsection \<open>Searching\<close>

text \<open>
  Claim C6, amended: the threshold is the constant 10, the code has no threshold
  parameter. On a well-formed inventory \<open>powerfulItem\<close> returns \<^verbatim>\<open>undefined\<close>
  (\<open>None\<close>) exactly when no item has \<^verbatim>\<open>power > 10\<close>; otherwise it returns the
  element at the least index whose item has \<^verbatim>\<open>power > 10\<close>.
\<close>

theorem powerfulItem_first_above_ten:
  assumes "wellFormed s arr"
  shows "\<exists>found. powerfulItem s arr = Inr found
    \<and> (found = None \<longleftrightarrow> (\<forall>it \<in> set (itemsOf s arr). \<not> 10 < power_val it))
    \<and> (\<forall>r. found = Some r \<longrightarrow>
          (\<exists>i < length (arrays s ! arr). r = arrays s ! arr ! i
             \<and> 10 < power_val (itemsOf s arr ! i)
             \<and> (\<forall>j < i. \<not> 10 < power_val (itemsOf s arr ! j))))"
proof -
  let ?P = "\<lambda>r. 10 < power_val (objects s ! r)"
  let ?xs = "arrays s ! arr"
  have first: "\<exists>i < length ?xs. r = ?xs ! i \<and> 10 < power_val (itemsOf s arr ! i)
      \<and> (\<forall>j < i. \<not> 10 < power_val (itemsOf s arr ! j))"
    if "List.find ?P ?xs = Some r" for r
  proof -
    from that obtain i where i: "i < length ?xs" "?P (?xs ! i)" "r = ?xs ! i"
      and least: "\<And>j. j < i \<Longrightarrow> \<not> ?P (?xs ! j)"
      unfolding find_Some_iff by blast
    from i have here: "10 < power_val (itemsOf s arr ! i)"
      by (simp add: itemsOf_def)
    have before: "\<forall>j < i. \<not> 10 < power_val (itemsOf s arr ! j)"
    proof (intro allI impI)
      fix j
      assume "j < i"
      with i(1) least [of j] show "\<not> 10 < power_val (itemsOf s arr ! j)"
        by (simp add: itemsOf_def)
    qed
    from i(1,3) here before show ?thesis
      by (intro exI [of _ i]) simp
  qed
  show ?thesis
  proof (rule exI [of _ "List.find ?P ?xs"], intro conjI)
    show "powerfulItem s arr = Inr (List.find ?P ?xs)"
      by (rule powerfulItem_find [OF assms])
    show "List.find ?P ?xs = None \<longleftrightarrow> (\<forall>it \<in> set (itemsOf s arr). \<not> 10 < power_val it)"
      by (auto simp: find_None_iff itemsOf_def)
    show "\<forall>r. List.find ?P ?xs = Some r \<longrightarrow>
          (\<exists>i < length ?xs. r = ?xs ! i \<and> 10 < power_val (itemsOf s arr ! i)
             \<and> (\<forall>j < i. \<not> 10 < power_val (itemsOf s arr ! j)))"
    proof (intro allI impI)
      fix r
      assume "List.find ?P ?xs = Some r"
      then show "\<exists>i < length ?xs. r = ?xs ! i \<and> 10 < power_val (itemsOf s arr ! i)
          \<and> (\<forall>j < i. \<not> 10 < power_val (itemsOf s arr ! j))"
        by (rule first)
    qed
  qed
qed

text \<open>The script's inventory gives the Axe, element 3; the single Shield gives nothing.\<close>

theorem powerfulItem_first_above_ten_witness:
  "wellFormed scriptStore scriptInventory
   \<and> powerfulItem scriptStore scriptInventory = Inr (Some 3)
   \<and> objects scriptStore ! 3 = \<lparr>name = ''Axe'', power_val = 12, broken = False\<rparr>
   \<and> wellFormed shieldStore 0
   \<and> powerfulItem shieldStore 0 = Inr None"
proof -
  have wf: "wellFormed shieldStore 0"
    by (simp add: wellFormed_def shieldStore_def)
  have items: "itemsOf shieldStore 0 = [\<lparr>name = ''Shield'', power_val = 5, broken = False\<rparr>]"
    by (simp add: itemsOf_def shieldStore_def)
  from powerfulItem_first_above_ten [OF wf]
  have none: "powerfulItem shieldStore 0 = Inr None"
    by (auto simp: items)
  have axe: "powerfulItem scriptStore scriptInventory = Inr (Some 3)"
    by (simp add: powerfulItem_def arrayFind_def getArray_def powerAboveTen_def getItem_def
        scriptStore_eq scriptInventory_eq)
  have "objects scriptStore ! 3 = \<lparr>name = ''Axe'', power_val = 12, broken = False\<rparr>"
    by (simp add: scriptStore_eq)
  with wf none axe wellFormed_script show ?thesis by simp
qed

text \<open>
  C6 as stated fails at threshold 5 on the script's inventory: its first element, the
  Sword, has power 10, above 5, and the code returns the last element, the Axe.
\<close>

theorem powerfulItem_threshold_counterexample:
  "itemsOf scriptStore scriptInventory ! 0 = \<lparr>name = ''Sword'', power_val = 10, broken = False\<rparr>
   \<and> (5 :: int) < 10
   \<and> powerfulItem scriptStore scriptInventory = Inr (Some (arrays scriptStore ! scriptInventory ! 3))
   \<and> itemsOf scriptStore scriptInventory ! 3 = \<lparr>name = ''Axe'', power_val = 12, broken = False\<rparr>
   \<and> powerfulItem scriptStore scriptInventory \<noteq> Inr (Some (arrays scriptStore ! scriptInventory ! 0))"
  by (simp add: powerfulItem_def arrayFind_def getArray_def powerAboveTen_def getItem_def
      itemsOf_def scriptStore_eq scriptInventory_eq)

text \<open>
  Claim C7: on a well-formed inventory \<open>brokenItemIndex\<close> returns \<open>-1\<close> exactly
  when no item is broken; otherwise it returns an index within the array, of a broken
  item, with no broken item before it. Since the indices start at 0, \<open>-1\<close> is none of
  them.
\<close>

theorem brokenItemIndex_first_broken:
  assumes "wellFormed s arr"
  shows "\<exists>k. brokenItemIndex s arr = Inr k
    \<and> (k = - 1 \<longleftrightarrow> (\<forall>it \<in> set (itemsOf s arr). \<not> broken it))
    \<and> (k \<noteq> - 1 \<longrightarrow>
          0 \<le> k \<and> k < int (length (itemsOf s arr))
          \<and> broken (itemsOf s arr ! nat k)
          \<and> (\<forall>j < nat k. \<not> broken (itemsOf s arr ! j)))"
proof (cases "\<exists>r \<in> set (arrays s ! arr). broken (objects s ! r)")
  case False
  then have "brokenItemIndex s arr = Inr (- 1)"
    by (simp add: brokenItemIndex_takeWhile [OF assms])
  moreover from False have "\<forall>it \<in> set (itemsOf s arr). \<not> broken it"
    by (simp add: itemsOf_def)
  ultimately show ?thesis by simp
next
  case True
  let ?P = "\<lambda>r. \<not> broken (objects s ! r)"
  let ?xs = "arrays s ! arr"
  let ?k = "length (takeWhile ?P ?xs)"
  from True have run: "brokenItemIndex s arr = Inr (int ?k)"
    by (simp add: brokenItemIndex_takeWhile [OF assms])
  from True have "takeWhile ?P ?xs \<noteq> ?xs"
    by simp
  then have less: "?k < length ?xs"
    using length_takeWhile_le [of ?P ?xs]
    by (metis le_neq_implies_less length_takeWhile_le takeWhile_eq_take take_all_iff order_refl)
  then have at: "broken (itemsOf s arr ! ?k)"
    using nth_length_takeWhile [of ?P ?xs] by (simp add: itemsOf_def)
  have before: "\<not> broken (itemsOf s arr ! j)" if "j < ?k" for j
  proof -
    from that have "takeWhile ?P ?xs ! j \<in> set (takeWhile ?P ?xs)"
      by (rule nth_mem)
    then have "?P (takeWhile ?P ?xs ! j)"
      by (rule set_takeWhileD [THEN conjunct2])
    with that less show ?thesis
      by (simp add: takeWhile_nth itemsOf_def)
  qed
  from True have some: "\<not> (\<forall>it \<in> set (itemsOf s arr). \<not> broken it)"
    by (simp add: itemsOf_def)
  from run less at before some show ?thesis
    by (simp add: itemsOf_def)
qed

text \<open>The script's inventory gives 2, the Bow; the single Shield gives \<open>-1\<close>.\<close>

theorem brokenItemIndex_first_broken_witness:
  "wellFormed scriptStore scriptInventory
   \<and> brokenItemIndex scriptStore scriptInventory = Inr 2
   \<and> itemsOf scriptStore scriptInventory ! 2 = \<lparr>name = ''Bow'', power_val = 8, broken = True\<rparr>
   \<and> wellFormed shieldStore 0
   \<and> brokenItemIndex shieldStore 0 = Inr (- 1)"
proof -
  have wf: "wellFormed shieldStore 0"
    by (simp add: wellFormed_def shieldStore_def)
  have items: "itemsOf shieldStore 0 = [\<lparr>name = ''Shield'', power_val = 5, broken = False\<rparr>]"
    by (simp add: itemsOf_def shieldStore_def)
  from brokenItemIndex_first_broken [OF wf]
  have none: "brokenItemIndex shieldStore 0 = Inr (- 1)"
    by (auto simp: items)
  have bow: "brokenItemIndex scriptStore scriptInventory = Inr 2"
    by (simp add: brokenItemIndex_def arrayFindIndex_def getArray_def isBroken_def getItem_def
        scriptStore_eq scriptInventory_eq)
  from wf none bow wellFormed_script show ?thesis
    by (simp add: itemsOf_script)
qed

subsection \<open>Testing all and some\<close>

text \<open>
  Claim C8, amended: the threshold is the constant 5, the code has no threshold
  parameter. On a well-formed inventory \<open>allPowerful\<close> is true if and only if every
  item has \<^verbatim>\<open>power > 5\<close>; on an empty array it is true.
\<close>

theorem allPowerful_above_five:
  "(wellFormed s arr \<longrightarrow>
      allPowerful s arr = Inr (\<forall>it \<in> set (itemsOf s arr). 5 < power_val it))
   \<and> (getArray s arr = Inr [] \<longrightarrow> allPowerful s arr = Inr True)"
proof (intro conjI impI)
  assume "wellFormed s arr"
  then show "allPowerful s arr = Inr (\<forall>it \<in> set (itemsOf s arr). 5 < power_val it)"
    by (rule allPowerful_forall)
next
  assume "getArray s arr = Inr []"
  then show "allPowerful s arr = Inr True"
    by (simp add: allPowerful_def arrayEvery_def)
qed

text \<open>False on the script's inventory (the Shield has power 5), true on the empty array.\<close>

theorem allPowerful_above_five_witness:
  "wellFormed scriptStore scriptInventory
   \<and> allPowerful scriptStore scriptInventory = Inr False
   \<and> getArray splitStore 3 = Inr []
   \<and> allPowerful splitStore 3 = Inr True"
proof -
  have empty: "getArray splitStore 3 = Inr []"
    by (simp add: getArray_def splitStore_def)
  from allPowerful_above_five [of scriptStore scriptInventory] wellFormed_script
  have "allPowerful scriptStore scriptInventory = Inr False"
    by (simp add: itemsOf_script)
  moreover from allPowerful_above_five [of splitStore 3] empty
  have "allPowerful splitStore 3 = Inr True"
    by blast
  ultimately show ?thesis
    using wellFormed_script empty by simp
qed

text \<open>
  C8 as stated fails at threshold 0 on the script's inventory: every power is above 0,
  and the code answers false.
\<close>

theorem allPowerful_threshold_counterexample:
  "map power_val (itemsOf scriptStore scriptInventory) = [10, 5, 8, 12]
   \<and> (0 :: int) < 10 \<and> (0 :: int) < 5 \<and> (0 :: int) < 8 \<and> (0 :: int) < 12
   \<and> allPowerful scriptStore scriptInventory = Inr False
   \<and> allPowerful scriptStore scriptInventory \<noteq> Inr True"
  by (simp add: allPowerful_def arrayEvery_def getArray_def powerAboveFive_def getItem_def
      itemsOf_def scriptStore_eq scriptInventory_eq)

text \<open>
  Claim C9: on a well-formed inventory \<open>hasBrokenItems\<close> is true if and only if at
  least one item has \<^verbatim>\<open>broken\<close> true; on an empty array it is false.
\<close>

theorem hasBrokenItems_iff:
  "(wellFormed s arr \<longrightarrow>
      hasBrokenItems s arr = Inr (\<exists>it \<in> set (itemsOf s arr). broken it))
   \<and> (getArray s arr = Inr [] \<longrightarrow> hasBrokenItems s arr = Inr False)"
proof (intro conjI impI)
  assume "wellFormed s arr"
  then show "hasBrokenItems s arr = Inr (\<exists>it \<in> set (itemsOf s arr). broken it)"
    by (rule hasBrokenItems_exists)
next
  assume "getArray s arr = Inr []"
  then show "hasBrokenItems s arr = Inr False"
    by (simp add: hasBrokenItems_def arraySome_def)
qed

text \<open>True on the script's inventory (the Bow), false on the single Shield and on the empty array.\<close>

theorem hasBrokenItems_iff_witness:
  "wellFormed scriptStore scriptInventory
   \<and> hasBrokenItems scriptStore scriptInventory = Inr True
   \<and> wellFormed shieldStore 0
   \<and> hasBrokenItems shieldStore 0 = Inr False
   \<and> getArray splitStore 3 = Inr []
   \<and> hasBrokenItems splitStore 3 = Inr False"
proof -
  have wf: "wellFormed shieldStore 0"
    by (simp add: wellFormed_def shieldStore_def)
  have items: "itemsOf shieldStore 0 = [\<lparr>name = ''Shield'', power_val = 5, broken = False\<rparr>]"
    by (simp add: itemsOf_def shieldStore_def)
  have empty: "getArray splitStore 3 = Inr []"
    by (simp add: getArray_def splitStore_def)
  from hasBrokenItems_iff [of scriptStore scriptInventory] wellFormed_script
  have "hasBrokenItems scriptStore scriptInventory = Inr True"
    by (simp add: itemsOf_script)
  moreover from hasBrokenItems_iff [of shieldStore 0] wf
  have "hasBrokenItems shieldStore 0 = Inr False"
    by (simp add: items)
  moreover from hasBrokenItems_iff [of splitStore 3] empty
  have "hasBrokenItems splitStore 3 = Inr False"
    by blast
  ultimately show ?thesis
    using wellFormed_script wf empty by simp
qed

subsection \<open>The three upgrades\<close>

text \<open>
  Claim C10: whenever three well-formed inventories, in any stores, hold the same
  sequence of items, the \<^verbatim>\<open>for\<close> loop on the first, the field-by-field \<^verbatim>\<open>map\<close>
  on the second and the spread \<^verbatim>\<open>map\<close> on the third all return (the loop ends, none
  throws), and the three arrays they return hold equal sequences of items.
\<close>

theorem upgrade_implementations_agree:
  assumes "wellFormed s1 a1" and "wellFormed s2 a2" and "wellFormed s3 a3"
    and "itemsOf s2 a2 = itemsOf s1 a1" and "itemsOf s3 a3 = itemsOf s1 a1"
  shows "\<exists>r1 t1 r2 t2 r3 t3.
      upgradedInventoryLoop s1 a1 = Some (Inr (r1, t1))
    \<and> upgradedInventoryMap s2 a2 = Inr (r2, t2)
    \<and> upgradedInventoryConcise s3 a3 = Inr (r3, t3)
    \<and> itemsOf t1 r1 = itemsOf t2 r2 \<and> itemsOf t2 r2 = itemsOf t3 r3"
proof -
  let ?up = "\<lambda>s a. s\<lparr>objects := objects s @ map (\<lambda>r. plus5 (objects s ! r)) (arrays s ! a),
        arrays := arrays s @
          [[length (objects s) ..< length (objects s) + length (arrays s ! a)]]\<rparr>"
  have loop: "upgradedInventoryLoop s1 a1 = Some (Inr (length (arrays s1), ?up s1 a1))"
    by (rule upgradedInventoryLoop_run [OF assms(1)])
  have mapped: "upgradedInventoryMap s2 a2 = Inr (length (arrays s2), ?up s2 a2)"
    by (simp add: upgradedInventoryMap_def arrayMap_upgrade [OF assms(2)])
  have concise: "upgradedInventoryConcise s3 a3 = Inr (length (arrays s3), ?up s3 a3)"
    by (simp add: upgradedInventoryConcise_def upgradeSpread_eq arrayMap_upgrade [OF assms(3)])
  have "itemsOf (?up s1 a1) (length (arrays s1)) = map plus5 (itemsOf s1 a1)"
    and "itemsOf (?up s2 a2) (length (arrays s2)) = map plus5 (itemsOf s1 a1)"
    and "itemsOf (?up s3 a3) (length (arrays s3)) = map plus5 (itemsOf s1 a1)"
    using assms by (simp_all only: upgraded_items)
  then have "itemsOf (?up s1 a1) (length (arrays s1)) = itemsOf (?up s2 a2) (length (arrays s2))"
    and "itemsOf (?up s2 a2) (length (arrays s2)) = itemsOf (?up s3 a3) (length (arrays s3))"
    by simp_all
  with loop mapped concise show ?thesis
    by blast
qed

text \<open>
  The script itself: the loop runs in the script's store, the first \<^verbatim>\<open>map\<close> in the
  store the loop left, the second in the store the first left.
\<close>

theorem upgrade_implementations_agree_witness:
  "\<exists>r1 t1 r2 t2 r3 t3.
      upgradedInventoryLoop scriptStore scriptInventory = Some (Inr (r1, t1))
    \<and> upgradedInventoryMap t1 scriptInventory = Inr (r2, t2)
    \<and> upgradedInventoryConcise t2 scriptInventory = Inr (r3, t3)
    \<and> wellFormed scriptStore scriptInventory
    \<and> wellFormed t1 scriptInventory \<and> wellFormed t2 scriptInventory
    \<and> itemsOf t1 scriptInventory = itemsOf scriptStore scriptInventory
    \<and> itemsOf t2 scriptInventory = itemsOf scriptStore scriptInventory
    \<and> itemsOf t1 r1 = itemsOf t2 r2 \<and> itemsOf t2 r2 = itemsOf t3 r3
    \<and> itemsOf t3 r3 =
        [\<lparr>name = ''Sword'', power_val = 15, broken = False\<rparr>,
         \<lparr>name = ''Shield'', power_val = 10, broken = False\<rparr>,
         \<lparr>name = ''Bow'', power_val = 13, broken = True\<rparr>,
         \<lparr>name = ''Axe'', power_val = 17, broken = False\<rparr>]"
proof -
  let ?up = "\<lambda>s. s\<lparr>objects := objects s @ map (\<lambda>r. plus5 (objects s ! r)) (arrays s ! scriptInventory),
        arrays := arrays s @
          [[length (objects s) ..< length (objects s) + length (arrays s ! scriptInventory)]]\<rparr>"
  let ?t1 = "?up scriptStore"
  let ?t2 = "?up ?t1"
  let ?t3 = "?up ?t2"
  note wf0 = wellFormed_script
  have wf1: "wellFormed ?t1 scriptInventory"
    by (rule wellFormed_kept [OF wf0])
  have wf2: "wellFormed ?t2 scriptInventory"
    by (rule wellFormed_kept [OF wf1])
  have kept1: "itemsOf ?t1 scriptInventory = itemsOf scriptStore scriptInventory"
    by (rule itemsOf_kept [OF wf0])
  have kept2: "itemsOf ?t2 scriptInventory = itemsOf scriptStore scriptInventory"
    using itemsOf_kept [OF wf1] kept1 by simp
  have loop: "upgradedInventoryLoop scriptStore scriptInventory =
      Some (Inr (length (arrays scriptStore), ?t1))"
    by (rule upgradedInventoryLoop_run [OF wf0])
  have mapped: "upgradedInventoryMap ?t1 scriptInventory = Inr (length (arrays ?t1), ?t2)"
    unfolding upgradedInventoryMap_def by (rule arrayMap_upgrade [OF wf1])
  have concise: "upgradedInventoryConcise ?t2 scriptInventory = Inr (length (arrays ?t2), ?t3)"
    unfolding upgradedInventoryConcise_def upgradeSpread_eq by (rule arrayMap_upgrade [OF wf2])
  from upgrade_implementations_agree [OF wf0 wf1 wf2 kept1 kept2]
  have agree: "itemsOf ?t1 (length (arrays scriptStore)) = itemsOf ?t2 (length (arrays ?t1))"
    "itemsOf ?t2 (length (arrays ?t1)) = itemsOf ?t3 (length (arrays ?t2))"
    unfolding loop mapped concise by simp_all
  have "itemsOf ?t3 (length (arrays ?t2)) = map plus5 (itemsOf ?t2 scriptInventory)"
    by (rule upgraded_items [OF wf2])
  then have items: "itemsOf ?t3 (length (arrays ?t2)) =
        [\<lparr>name = ''Sword'', power_val = 15, broken = False\<rparr>,
         \<lparr>name = ''Shield'', power_val = 10, broken = False\<rparr>,
         \<lparr>name = ''Bow'', power_val = 13, broken = True\<rparr>,
         \<lparr>name = ''Axe'', power_val = 17, broken = False\<rparr>]"
    unfolding kept2 itemsOf_script by (simp add: plus5_def numberAdd_exact)
  from loop mapped concise wf0 wf1 wf2 kept1 kept2 agree items show ?thesis
    by blast
qed

end
